theory Spec2Isabelle
  imports Complex_Main "HOL-Library.Word"
begin

section \<open>JavaScript numbers as the plugins use them\<close>

text \<open>
  The fields of the audio plugin are untyped: a timestamp field is \<open>undefined\<close> until
  its handler has run, \<open>rt\<close> starts as \<open>null\<close>, and arithmetic on \<open>undefined\<close>
  gives \<open>NaN\<close>. Finite numbers are modelled as exact reals (timestamps of
  \<open>performance.now()\<close> are fractional milliseconds).
\<close>

datatype jsnum = Undefined | Null | NaN | Num real

fun ToNumber :: "jsnum \<Rightarrow> real option" where
  "ToNumber Undefined = None"
| "ToNumber Null = Some 0"
| "ToNumber NaN = None"
| "ToNumber (Num x) = Some x"

definition js_sub :: "jsnum \<Rightarrow> jsnum \<Rightarrow> jsnum" where
  "js_sub a b = (case (ToNumber a, ToNumber b) of
                   (Some x, Some y) \<Rightarrow> Num (x - y)
                 | _ \<Rightarrow> NaN)"

definition js_gt :: "jsnum \<Rightarrow> jsnum \<Rightarrow> bool" where
  "js_gt a b = (case (ToNumber a, ToNumber b) of
                  (Some x, Some y) \<Rightarrow> y < x
                | _ \<Rightarrow> False)"

definition Math_round :: "jsnum \<Rightarrow> jsnum" where
  "Math_round a = (case ToNumber a of
                     Some x \<Rightarrow> Num (of_int \<lfloor>x + 1 / 2\<rfloor>)
                   | None \<Rightarrow> NaN)"

section \<open>Blobs, data URLs and base64\<close>

type_synonym byte = "8 word"
type_synonym blob = "byte list"

definition b64chars :: string where
  "b64chars = ''ABCDEFGHIJKLMNOPQRSTUVWXYZabcdefghijklmnopqrstuvwxyz0123456789+/''"

definition b64 :: "nat \<Rightarrow> char" where
  "b64 n = b64chars ! (n mod 64)"

fun base64 :: "blob \<Rightarrow> string" where
  "base64 [] = []"
| "base64 [a] =
     (let n = unat a * 65536
      in [b64 (n div 262144), b64 (n div 4096), CHR ''='', CHR ''=''])"
| "base64 [a, b] =
     (let n = unat a * 65536 + unat b * 256
      in [b64 (n div 262144), b64 (n div 4096), b64 (n div 64), CHR ''=''])"
| "base64 (a # b # c # rest) =
     (let n = unat a * 65536 + unat b * 256 + unat c
      in [b64 (n div 262144), b64 (n div 4096), b64 (n div 64), b64 n] @ base64 rest)"

text \<open>
  The decoding of base64, to state that the encoding loses nothing: the position of a
  character in the alphabet, and three bytes from four characters.
\<close>

fun index_of :: "'a list \<Rightarrow> 'a \<Rightarrow> nat" where
  "index_of [] c = 0"
| "index_of (x # xs) c = (if x = c then 0 else Suc (index_of xs c))"

definition unb64 :: "char \<Rightarrow> nat" where
  "unb64 c = index_of b64chars c"

fun base64_decode :: "string \<Rightarrow> blob" where
  "base64_decode (c0 # c1 # c2 # c3 # rest) =
     (let n = unb64 c0 * 262144 + unb64 c1 * 4096 +
              (if c2 = CHR ''='' then 0 else unb64 c2 * 64) +
              (if c3 = CHR ''='' then 0 else unb64 c3)
      in if c2 = CHR ''='' then [of_nat (n div 65536)]
         else if c3 = CHR ''='' then [of_nat (n div 65536), of_nat (n div 256)]
         else [of_nat (n div 65536), of_nat (n div 256), of_nat n] @ base64_decode rest)"
| "base64_decode cs = []"

text \<open>\<open>reader.readAsDataURL(data)\<close> for a blob of type \<open>audio/webm\<close>.\<close>

definition readAsDataURL :: "blob \<Rightarrow> string" where
  "readAsDataURL d = ''data:audio/webm;base64,'' @ base64 d"

text \<open>\<open>s.split(",")\<close>: the pieces of \<open>s\<close> between commas.\<close>

fun split_comma :: "string \<Rightarrow> string list" where
  "split_comma [] = [[]]"
| "split_comma (c # cs) =
     (if c = CHR '','' then [] # split_comma cs
      else (case split_comma cs of
              [] \<Rightarrow> [[c]]
            | p # ps \<Rightarrow> (c # p) # ps))"

text \<open>Indexing a JavaScript array: \<open>undefined\<close> out of range.\<close>

definition js_index :: "'a list \<Rightarrow> nat \<Rightarrow> 'a option" where
  "js_index xs i = (if i < length xs then Some (xs ! i) else None)"

section \<open>The amplitude of a sample window\<close>

text \<open>
  The loop of \<open>logAmplitude\<close> over \<open>dataArray\<close>, which \<open>startRecording\<close> allocates
  with \<open>bufferLength\<close> entries: the bound of the loop is the length of the array.
  With no samples the quotient is \<open>0 / 0\<close>, which is \<open>NaN\<close> in JavaScript.
\<close>

definition sample_value :: "byte \<Rightarrow> real" where
  "sample_value s = (real (unat s) - 128) / 128"

definition amplitude :: "byte list \<Rightarrow> jsnum" where
  "amplitude dataArray =
     (let sum = foldl (\<lambda>sum s. sum + sample_value s * sample_value s) 0 dataArray;
          bufferLength = length dataArray
      in if bufferLength = 0 then NaN else Num (sqrt (sum / real bufferLength)))"

section \<open>The audio-response plugin: parameters, state and events\<close>

text \<open>
  The parameters of \<open>info\<close> that the plugin's behaviour depends on (\<open>null\<close> is
  \<open>None\<close>). The button labels and the asset paths only appear in markup.
\<close>

record trial =
  stimulus :: string
  stimulus_duration :: "int option"
  recording_duration :: "int option"
  show_done_button :: bool
  allow_playback :: bool
  save_audio_url :: bool
  use_voice_key :: bool
  amplitude_threshold :: real
  timer_duration :: int

text \<open>
  What the page supplies: the analyser's current time-domain window as a function of the
  time of the call (\<open>getByteTimeDomainData\<close>), the offset between the wall clock
  \<open>Date.now()\<close> and \<open>performance.now()\<close>, and whether
  \<open>pluginAPI.audioContext()\<close> is an audio context rather than \<open>null\<close>.
\<close>

record browser =
  analyser :: "real \<Rightarrow> byte list"
  timeOrigin :: real
  audioContext :: bool

text \<open>
  The loaded alert sound: a buffer source node, which the page lets \<open>start()\<close> once
  (the flag says whether it has been started; a second \<open>start()\<close> throws), or an
  audio element, whose \<open>play()\<close> can be called any number of times.
\<close>

datatype sound = BufferSource bool | AudioElement

datatype recorder_state = Inactive | Recording

datatype recorder_event = QStart | QStop

text \<open>
  The closures handed to \<open>pluginAPI.setTimeout\<close>: the two timers of
  \<open>start_event_handler\<close>, the poll \<open>logAmplitude\<close> of one watch (the number names the
  promise whose \<open>resolve\<close> and \<open>reject\<close> it holds), and the alert of
  \<open>startRecording\<close> with its \<open>triggerTime\<close>.
\<close>

datatype callback = HideStimulus | RecordingTimeout | LogAmplitude nat | Alert nat real

text \<open>
  The display element: empty; or the markup of \<open>showDisplay\<close> (stimulus visible,
  alert image opaque, and the done button: absent, or present with or without its click
  listener); or the markup of \<open>showPlaybackControls\<close> with the audio source.
\<close>

datatype screen = Blank | StimulusScreen bool bool "bool option" | PlaybackScreen "nat option"

record trial_data =
  data_rt :: jsnum
  data_stimulus :: string
  data_response :: "string option"
  data_estimated_stimulus_onset :: jsnum
  data_audio_url :: "nat option"

text \<open>
  The fields of \<open>HtmlAudioResponsePlugin\<close> (first group), and the state of the page
  around it: the clock, the recorder with its queued events and the plugin's three
  listeners, the pending timeouts of \<open>pluginAPI\<close> (handle, due time, callback), the
  promises already settled, the file readers still reading, the live object URLs, the
  resize observations not yet reported, the display, the results given to
  \<open>finishTrial\<close>, a log of the alert callbacks that ran (watch, trigger time, time
  of the run), and the number of calls of \<open>start()\<close> or \<open>play()\<close> on the alert
  sound that did not throw.
\<close>

record world =
  stimulus_start_time :: jsnum
  recorder_start_time :: jsnum
  audio_url :: "nat option"
  response :: "string option"
  load_resolver :: "nat option"
  rt :: jsnum
  recorded_data_chunks :: "blob list"
  startTime :: jsnum
  timeout :: jsnum
  alert_sound :: "sound option"
  now :: real
  recorder :: recorder_state
  pending :: "recorder_event list"
  listeners :: bool
  timeout_handlers :: "(nat \<times> real \<times> callback) list"
  next_id :: nat
  stop_resolved :: "nat set"
  watch_resolved :: "(nat \<times> real) list"
  watch_rejected :: "nat set"
  readers :: "(nat \<times> blob) list"
  object_urls :: "(nat \<times> blob) list"
  observers :: "nat list"
  display :: screen
  finished :: "trial_data list"
  alerts :: "(nat \<times> real \<times> real) list"
  sounds :: nat

datatype event =
    AudioLoaded
  | StartEvent real
  | DataAvailable blob
  | StopEvent
  | ReaderLoad nat
  | Layout nat
  | Timer nat
  | ClickDone
  | ClickRecordAgain
  | ClickContinue

section \<open>The timeout registry of jsPsych and the recorder\<close>

text \<open>
  Modelled from the spec: \<open>pluginAPI.setTimeout\<close> belongs to the jsPsych core, which
  is not among the sources. It registers the callback as a pending timeout under a fresh
  handle, due after the delay (a negative delay counts as zero).
\<close>

definition setTimeout :: "callback \<Rightarrow> real \<Rightarrow> world \<Rightarrow> world" where
  "setTimeout cb delay w =
     w\<lparr>timeout_handlers := timeout_handlers w @ [(next_id w, now w + max 0 delay, cb)],
       next_id := Suc (next_id w)\<rparr>"

text \<open>
  Modelled from the spec: \<open>pluginAPI.clearAllTimeouts\<close> belongs to the jsPsych core,
  which is not among the sources. It cancels every pending timeout.
\<close>

definition clearAllTimeouts :: "world \<Rightarrow> world" where
  "clearAllTimeouts w = w\<lparr>timeout_handlers := []\<rparr>"

text \<open>
  \<open>recorder.stop()\<close> of an inactive recorder does nothing; otherwise the recorder
  becomes inactive and queues its last fragment and the stop event.
\<close>

definition recorder_stop :: "world \<Rightarrow> world" where
  "recorder_stop w =
     (if recorder w = Inactive then w
      else w\<lparr>recorder := Inactive, pending := pending w @ [QStop]\<rparr>)"

definition revokeObjectURL :: "nat option \<Rightarrow> world \<Rightarrow> world" where
  "revokeObjectURL u w =
     (case u of
        None \<Rightarrow> w
      | Some k \<Rightarrow> w\<lparr>object_urls := filter (\<lambda>x. fst x \<noteq> k) (object_urls w)\<rparr>)"

definition Date_now :: "browser \<Rightarrow> world \<Rightarrow> jsnum" where
  "Date_now br w = Num (of_int \<lfloor>timeOrigin br + now w\<rfloor>)"

section \<open>The methods of the audio-response plugin\<close>

definition showDisplay :: "trial \<Rightarrow> world \<Rightarrow> world" where
  "showDisplay tr w =
     w\<lparr>observers := observers w @ [next_id w],
       next_id := Suc (next_id w),
       display := StimulusScreen True False
                    (if show_done_button tr then Some False else None)\<rparr>"

definition hideStimulus :: "world \<Rightarrow> world" where
  "hideStimulus w =
     (case display w of
        StimulusScreen v a b \<Rightarrow> w\<lparr>display := StimulusScreen False False b\<rparr>
      | _ \<Rightarrow> w)"

definition showAlertImage :: "world \<Rightarrow> world" where
  "showAlertImage w =
     (case display w of
        StimulusScreen v a b \<Rightarrow> w\<lparr>display := StimulusScreen v True b\<rparr>
      | _ \<Rightarrow> w)"

text \<open>
  Starting the buffer source node a second time throws, which ends the calling callback;
  \<open>playAlertSound\<close> is the last call of the alert callback that changes anything.
\<close>

definition playAlertSound :: "world \<Rightarrow> world" where
  "playAlertSound w =
     (case alert_sound w of
        None \<Rightarrow> w
      | Some (BufferSource started) \<Rightarrow>
          if started then w
          else w\<lparr>alert_sound := Some (BufferSource True), sounds := Suc (sounds w)\<rparr>
      | Some AudioElement \<Rightarrow> w\<lparr>sounds := Suc (sounds w)\<rparr>)"

definition addButtonEvent :: "world \<Rightarrow> world" where
  "addButtonEvent w =
     (case display w of
        StimulusScreen v a (Some l) \<Rightarrow> w\<lparr>display := StimulusScreen v a (Some True)\<rparr>
      | _ \<Rightarrow> w)"

text \<open>
  \<open>stopRecording\<close> returns a new promise and keeps its \<open>resolve\<close> in
  \<open>load_resolver\<close>. Both callers chain the same continuation, \<open>after_stop\<close> below.
\<close>

definition stopRecording :: "world \<Rightarrow> world" where
  "stopRecording w =
     (let w1 = recorder_stop w
      in w1\<lparr>load_resolver := Some (next_id w1), next_id := Suc (next_id w1)\<rparr>)"

definition showPlaybackControls :: "world \<Rightarrow> world" where
  "showPlaybackControls w = w\<lparr>display := PlaybackScreen (audio_url w)\<rparr>"

definition endTrial :: "trial \<Rightarrow> world \<Rightarrow> world" where
  "endTrial tr w =
     (let w1 = clearAllTimeouts (w\<lparr>listeners := False\<rparr>);
          trial_data = \<lparr>data_rt = rt w1,
                        data_stimulus = stimulus tr,
                        data_response = response w1,
                        data_estimated_stimulus_onset =
                          Math_round (js_sub (stimulus_start_time w1) (recorder_start_time w1)),
                        data_audio_url = None\<rparr>;
          w2 = (if save_audio_url tr then w1 else revokeObjectURL (audio_url w1) w1);
          trial_data2 = (if save_audio_url tr
                         then trial_data\<lparr>data_audio_url := audio_url w1\<rparr>
                         else trial_data)
      in w2\<lparr>display := Blank, finished := finished w2 @ [trial_data2]\<rparr>)"

definition after_stop :: "trial \<Rightarrow> world \<Rightarrow> world" where
  "after_stop tr w = (if allow_playback tr then showPlaybackControls w else endTrial tr w)"

definition done_click :: "world \<Rightarrow> world" where
  "done_click w =
     stopRecording (w\<lparr>rt := Math_round (js_sub (Num (now w)) (stimulus_start_time w))\<rparr>)"

definition data_available_handler :: "blob \<Rightarrow> world \<Rightarrow> world" where
  "data_available_handler d w =
     (if length d > 0 then w\<lparr>recorded_data_chunks := recorded_data_chunks w @ [d]\<rparr> else w)"

definition stop_event_handler :: "world \<Rightarrow> world" where
  "stop_event_handler w =
     (let data = concat (recorded_data_chunks w);
          url = next_id w;
          reader = Suc (next_id w)
      in w\<lparr>audio_url := Some url,
           object_urls := object_urls w @ [(url, data)],
           readers := readers w @ [(reader, data)],
           next_id := Suc (Suc (next_id w))\<rparr>)"

text \<open>
  The \<open>load\<close> listener of the reader of \<open>stop_event_handler\<close>. Calling an undefined
  \<open>load_resolver\<close> throws after \<open>response\<close> is set; resolving a promise that is
  already resolved does nothing; otherwise the continuation of the promise runs next.
\<close>

definition reader_load :: "trial \<Rightarrow> nat \<Rightarrow> blob \<Rightarrow> world \<Rightarrow> world" where
  "reader_load tr k d w =
     (let w1 = w\<lparr>readers := filter (\<lambda>x. fst x \<noteq> k) (readers w),
                 response := js_index (split_comma (readAsDataURL d)) 1\<rparr>
      in case load_resolver w1 of
           None \<Rightarrow> w1
         | Some p \<Rightarrow>
             if p \<in> stop_resolved w1 then w1
             else after_stop tr (w1\<lparr>stop_resolved := insert p (stop_resolved w1)\<rparr>))"

definition start_event_handler :: "trial \<Rightarrow> real \<Rightarrow> world \<Rightarrow> world" where
  "start_event_handler tr timeStamp w =
     (let w1 = w\<lparr>recorded_data_chunks := [], recorder_start_time := Num timeStamp\<rparr>;
          w2 = addButtonEvent (showDisplay tr w1);
          w3 = (case stimulus_duration tr of
                  None \<Rightarrow> w2
                | Some d \<Rightarrow> setTimeout HideStimulus (of_int d) w2)
      in case recording_duration tr of
           None \<Rightarrow> w3
         | Some d \<Rightarrow> setTimeout RecordingTimeout (of_int d) w3)"

definition recording_timeout :: "world \<Rightarrow> world" where
  "recording_timeout w = (if recorder w \<noteq> Inactive then stopRecording w else w)"

definition settled :: "nat \<Rightarrow> world \<Rightarrow> bool" where
  "settled wid w \<longleftrightarrow> wid \<in> fst ` set (watch_resolved w) \<or> wid \<in> watch_rejected w"

text \<open>
  \<open>resolve\<close> of a watch followed by the \<open>then\<close> callback of \<open>startRecording\<close>
  (which schedules the alert), and \<open>reject\<close> followed by its \<open>catch\<close> callback.
\<close>

definition resolve_watch :: "trial \<Rightarrow> nat \<Rightarrow> world \<Rightarrow> world" where
  "resolve_watch tr wid w =
     (if settled wid w then w
      else setTimeout (Alert wid (now w)) (of_int (timer_duration tr))
             (w\<lparr>watch_resolved := watch_resolved w @ [(wid, now w)]\<rparr>))"

definition reject_watch :: "nat \<Rightarrow> world \<Rightarrow> world" where
  "reject_watch wid w =
     (if settled wid w then w else w\<lparr>watch_rejected := insert wid (watch_rejected w)\<rparr>)"

definition logAmplitude :: "trial \<Rightarrow> browser \<Rightarrow> nat \<Rightarrow> world \<Rightarrow> world" where
  "logAmplitude tr br wid w =
     (let amplitude = amplitude (analyser br (now w))
      in if js_gt amplitude (Num (amplitude_threshold tr)) then resolve_watch tr wid w
         else if js_gt (js_sub (Date_now br w) (startTime w)) (timeout w)
              then reject_watch wid w
         else setTimeout (LogAmplitude wid) 5 w)"

definition logAmplitudeUntilThresholdReached :: "trial \<Rightarrow> browser \<Rightarrow> world \<Rightarrow> world" where
  "logAmplitudeUntilThresholdReached tr br w =
     logAmplitude tr br (next_id w) (w\<lparr>next_id := Suc (next_id w)\<rparr>)"

text \<open>
  \<open>recorder.start()\<close> throws unless the recorder is inactive, which ends the calling
  handler; otherwise the recorder is recording at once and its start event is queued.
\<close>

definition startRecording :: "trial \<Rightarrow> browser \<Rightarrow> world \<Rightarrow> world" where
  "startRecording tr br w =
     (if recorder w \<noteq> Inactive then w
      else logAmplitudeUntilThresholdReached tr br
             (w\<lparr>recorder := Recording,
                pending := pending w @ [QStart],
                startTime := Num (now w)\<rparr>))"

definition alert_callback :: "nat \<Rightarrow> real \<Rightarrow> world \<Rightarrow> world" where
  "alert_callback wid triggerTime w =
     playAlertSound (showAlertImage (w\<lparr>alerts := alerts w @ [(wid, triggerTime, now w)]\<rparr>))"

fun run_callback :: "trial \<Rightarrow> browser \<Rightarrow> callback \<Rightarrow> world \<Rightarrow> world" where
  "run_callback tr br HideStimulus w = hideStimulus w"
| "run_callback tr br RecordingTimeout w =
     recording_timeout w"
| "run_callback tr br (LogAmplitude wid) w = logAmplitude tr br wid w"
| "run_callback tr br (Alert wid triggerTime) w = alert_callback wid triggerTime w"

section \<open>One task of the event loop\<close>

text \<open>
  \<open>handle\<close> runs the listener of one event, \<open>None\<close> when the page cannot deliver
  the event in this state: the alert sound is loaded once, the recorder delivers its
  queued events in order and fragments only while it records or before its stop event,
  a reader loads once, a resize observation is reported once, a timeout runs when it is
  due and still pending, and a click needs its button on the display. The
  \<open>timeStamp\<close> of an event is not later than the time its listener runs. The
  recorder's events reach the plugin only while its listeners are attached.
\<close>

definition delivers_data :: "world \<Rightarrow> bool" where
  "delivers_data w =
     (case pending w of
        [] \<Rightarrow> recorder w = Recording
      | QStop # q \<Rightarrow> True
      | QStart # q \<Rightarrow> False)"

fun handle :: "trial \<Rightarrow> browser \<Rightarrow> event \<Rightarrow> world \<Rightarrow> world option" where
  "handle tr br AudioLoaded w =
     (case alert_sound w of
        None \<Rightarrow>
          Some (w\<lparr>alert_sound :=
                     Some (if audioContext br then BufferSource False else AudioElement)\<rparr>)
      | Some a \<Rightarrow> None)"
| "handle tr br (StartEvent timeStamp) w =
     (case pending w of
        QStart # q \<Rightarrow>
          if timeStamp \<le> now w
          then Some (let w1 = w\<lparr>pending := q\<rparr>
                     in if listeners w1 then start_event_handler tr timeStamp w1 else w1)
          else None
      | _ \<Rightarrow> None)"
| "handle tr br (DataAvailable d) w =
     (if delivers_data w
      then Some (if listeners w then data_available_handler d w else w)
      else None)"
| "handle tr br StopEvent w =
     (case pending w of
        QStop # q \<Rightarrow>
          Some (let w1 = w\<lparr>pending := q\<rparr>
                in if listeners w1 then stop_event_handler w1 else w1)
      | _ \<Rightarrow> None)"
| "handle tr br (ReaderLoad k) w =
     (case map_of (readers w) k of
        None \<Rightarrow> None
      | Some d \<Rightarrow> Some (reader_load tr k d w))"
| "handle tr br (Layout k) w =
     (if k \<in> set (observers w)
      then Some (w\<lparr>stimulus_start_time := Num (now w),
                   observers := removeAll k (observers w)\<rparr>)
      else None)"
| "handle tr br (Timer h) w =
     (case map_of (timeout_handlers w) h of
        None \<Rightarrow> None
      | Some (due, cb) \<Rightarrow>
          if due \<le> now w
          then Some (run_callback tr br cb
                       (w\<lparr>timeout_handlers := filter (\<lambda>x. fst x \<noteq> h) (timeout_handlers w)\<rparr>))
          else None)"
| "handle tr br ClickDone w =
     (case display w of
        StimulusScreen v a (Some l) \<Rightarrow>
          Some (if l then done_click w else w)
      | _ \<Rightarrow> None)"
| "handle tr br ClickRecordAgain w =
     (case display w of
        PlaybackScreen u \<Rightarrow> Some (startRecording tr br (revokeObjectURL (audio_url w) w))
      | _ \<Rightarrow> None)"
| "handle tr br ClickContinue w =
     (case display w of
        PlaybackScreen u \<Rightarrow> Some (endTrial tr w)
      | _ \<Rightarrow> None)"

text \<open>A task runs at a time not earlier than the task before it.\<close>

definition step :: "trial \<Rightarrow> browser \<Rightarrow> real \<times> event \<Rightarrow> world \<Rightarrow> world option" where
  "step tr br te w =
     (if fst te < now w then None else handle tr br (snd te) (w\<lparr>now := fst te\<rparr>))"

fun exec :: "trial \<Rightarrow> browser \<Rightarrow> world \<Rightarrow> (real \<times> event) list \<Rightarrow> world option" where
  "exec tr br w [] = Some w"
| "exec tr br w (te # tes) =
     (case step tr br te w of
        None \<Rightarrow> None
      | Some w' \<Rightarrow> exec tr br w' tes)"

text \<open>A new plugin object on a page whose recorder is inactive, at time \<open>t\<close>.\<close>

definition new_plugin :: "real \<Rightarrow> world" where
  "new_plugin t =
     \<lparr>stimulus_start_time = Undefined, recorder_start_time = Undefined,
      audio_url = None, response = None, load_resolver = None, rt = Null,
      recorded_data_chunks = [], startTime = Undefined, timeout = Undefined,
      alert_sound = None, now = t, recorder = Inactive, pending = [],
      listeners = False, timeout_handlers = [], next_id = 0, stop_resolved = {},
      watch_resolved = [], watch_rejected = {}, readers = [], object_urls = [],
      observers = [], display = Blank, finished = [], alerts = [], sounds = 0\<rparr>"

definition setupRecordingEvents :: "world \<Rightarrow> world" where
  "setupRecordingEvents w = w\<lparr>listeners := True\<rparr>"

text \<open>The method \<open>trial\<close>, called at time \<open>t\<close>.\<close>

definition trial_method :: "trial \<Rightarrow> browser \<Rightarrow> real \<Rightarrow> world" where
  "trial_method tr br t = startRecording tr br (setupRecordingEvents (new_plugin t))"

section \<open>Observations on runs\<close>

text \<open>
  The pending polls of one watch; the fragments a list of tasks delivers; whether the
  display shows the stimulus markup or the playback controls; and JavaScript's
  \<open>x >= 0\<close>.
\<close>

definition polls :: "nat \<Rightarrow> world \<Rightarrow> nat" where
  "polls wid w = length (filter (\<lambda>x. snd (snd x) = LogAmplitude wid) (timeout_handlers w))"

text \<open>
  What holds of a watch along every run: at most one poll of it is pending, and none
  once it is settled.
\<close>

definition poll_inv :: "nat \<Rightarrow> world \<Rightarrow> bool" where
  "poll_inv wid w \<longleftrightarrow>
     polls wid w \<le> (if settled wid w then 0 else 1) \<and>
     (polls wid w \<noteq> 0 \<or> settled wid w \<longrightarrow> wid < next_id w)"

text \<open>
  What holds of the two timestamps along every run: before the plugin has heard a start
  event nothing can end the trial (the display is empty, no reader reads, no stop event
  is queued and no recording timeout is pending); afterwards the start timestamp is in
  the past, and when every resize observation has been reported the stimulus timestamp
  is a number not earlier than it.
\<close>

definition onset_inv :: "world \<Rightarrow> bool" where
  "onset_inv w =
     (case recorder_start_time w of
        Undefined \<Rightarrow>
          display w = Blank \<and> readers w = [] \<and> QStop \<notin> set (pending w) \<and>
          list_all (\<lambda>x. snd (snd x) \<noteq> RecordingTimeout) (timeout_handlers w)
      | Num r \<Rightarrow>
          r \<le> now w \<and>
          (observers w = [] \<longrightarrow>
             (case stimulus_start_time w of Num s \<Rightarrow> r \<le> s | _ \<Rightarrow> False))
      | _ \<Rightarrow> False)"


fun is_start :: "event \<Rightarrow> bool" where
  "is_start (StartEvent timeStamp) = True"
| "is_start e = False"

fun is_stimulus :: "screen \<Rightarrow> bool" where
  "is_stimulus (StimulusScreen v a b) = True"
| "is_stimulus d = False"

fun is_playback :: "screen \<Rightarrow> bool" where
  "is_playback (PlaybackScreen u) = True"
| "is_playback d = False"

text \<open>
  The data of the file readers that load along a run, in the order they load; and what
  holds of the playback controls along every run: they are shown only once a reader has
  loaded.
\<close>

fun loaded :: "world \<Rightarrow> event \<Rightarrow> blob list" where
  "loaded w (ReaderLoad k) = (case map_of (readers w) k of None \<Rightarrow> [] | Some d \<Rightarrow> [d])"
| "loaded w e = []"

fun loads :: "trial \<Rightarrow> browser \<Rightarrow> world \<Rightarrow> (real \<times> event) list \<Rightarrow> blob list" where
  "loads tr br w [] = []"
| "loads tr br w (te # tes) =
     (case step tr br te w of
        None \<Rightarrow> []
      | Some w' \<Rightarrow> loaded w (snd te) @ loads tr br w' tes)"

definition review_inv :: "world \<Rightarrow> bool" where
  "review_inv w \<longleftrightarrow> (is_playback (display w) \<longrightarrow> response w \<noteq> None)"

definition js_nonneg :: "jsnum \<Rightarrow> bool" where
  "js_nonneg a = (case ToNumber a of Some x \<Rightarrow> 0 \<le> x | None \<Rightarrow> False)"

text \<open>The root mean square of the normalised samples, as the specification words it.\<close>

definition rms :: "byte list \<Rightarrow> real" where
  "rms samples =
     sqrt (sum_list (map (\<lambda>s. ((real (unat s) - 128) / 128)\<^sup>2) samples) / real (length samples))"

section \<open>The two image-keyboard plugins\<close>

text \<open>
  The parameters and the local variables of \<open>trial\<close> that \<open>after_response\<close> and
  \<open>end_trial\<close> read and write (\<open>dual_trial\<close> is a parameter of the logger plugin
  only). Drawing on the canvases is left out except for the fill style and for which
  stimulus is shown; a timeout is kept with its delay.
\<close>

record kb_trial =
  trigger_list :: "string list"
  trigger_end :: bool
  space_allowed :: bool
  correction_delay :: int
  dual_trial :: bool

datatype kb_callback = EndTrial | FillBlack

record kb_data =
  kb_responses :: "(string \<times> real) list"
  kb_words :: "string list"
  kb_wholebuffer :: string
  kb_eventTime :: jsnum
  kb_minsTyped :: "real option"

record kb_state =
  kb_startTime :: real
  words :: "string list"
  buffer :: string
  wholebuffer :: string
  responses :: "(string \<times> real) list"
  triggered :: bool
  eventTime :: jsnum
  fillStyle :: string
  post_shown :: bool
  kb_timeouts :: "(kb_callback \<times> int) list"
  kb_listening :: bool
  kb_finished :: "kb_data option"

definition kb_new :: "real \<Rightarrow> kb_state" where
  "kb_new t =
     \<lparr>kb_startTime = t, words = [], buffer = [], wholebuffer = [], responses = [],
      triggered = False, eventTime = Undefined, fillStyle = ''black'',
      post_shown = False, kb_timeouts = [], kb_listening = True, kb_finished = None\<rparr>"

text \<open>
  \<open>end_trial\<close> of the plugin in \<open>src/unnamed/part_000\<close>, and of the logger plugin
  at time \<open>t\<close>, whose result also has \<open>minsTyped\<close>.
\<close>

definition end_trial :: "kb_state \<Rightarrow> kb_state" where
  "end_trial s =
     (let s1 = s\<lparr>kb_timeouts := [], kb_listening := False\<rparr>;
          s2 = s1\<lparr>words := words s1 @ [buffer s1]\<rparr>
      in s2\<lparr>kb_finished := Some \<lparr>kb_responses = responses s2, kb_words = words s2,
                                   kb_wholebuffer = wholebuffer s2,
                                   kb_eventTime = eventTime s2,
                                   kb_minsTyped = None\<rparr>\<rparr>)"

definition end_trial_logger :: "real \<Rightarrow> kb_state \<Rightarrow> kb_state" where
  "end_trial_logger t s =
     (let s1 = s\<lparr>kb_timeouts := [], kb_listening := False\<rparr>;
          minsTyped = (t - kb_startTime s1) / 60000;
          s2 = s1\<lparr>words := words s1 @ [buffer s1]\<rparr>
      in s2\<lparr>kb_finished := Some \<lparr>kb_responses = responses s2, kb_words = words s2,
                                   kb_wholebuffer = wholebuffer s2,
                                   kb_eventTime = eventTime s2,
                                   kb_minsTyped = Some minsTyped\<rparr>\<rparr>)"

text \<open>
  \<open>responses.push\<close>: the result handed to \<open>finishTrial\<close> holds the array
  \<open>responses\<close> itself, not a copy, so a key pushed after \<open>end_trial\<close> (the enter
  key that ended the trial) is in the result as well.
\<close>

definition push_response :: "string \<Rightarrow> real \<Rightarrow> kb_state \<Rightarrow> kb_state" where
  "push_response key time s =
     s\<lparr>responses := responses s @ [(key, time)],
       kb_finished :=
         map_option (\<lambda>d. d\<lparr>kb_responses := responses s @ [(key, time)]\<rparr>) (kb_finished s)\<rparr>"

text \<open>
  The branch of \<open>after_response\<close> for the enter key; \<open>finish\<close> is the plugin's
  \<open>end_trial\<close>.
\<close>

definition on_enter :: "kb_trial \<Rightarrow> (kb_state \<Rightarrow> kb_state) \<Rightarrow> kb_state \<Rightarrow> kb_state" where
  "on_enter tr finish s =
     (if trigger_end tr then
        if triggered s
        then s\<lparr>fillStyle := ''green'',
               kb_timeouts := kb_timeouts s @ [(EndTrial, correction_delay tr)]\<rparr>
        else s\<lparr>fillStyle := ''red'',
               kb_timeouts := kb_timeouts s @ [(FillBlack, correction_delay tr)]\<rparr>
      else finish s)"

text \<open>\<open>s.includes(t)\<close> on strings.\<close>

fun starts_with :: "string \<Rightarrow> string \<Rightarrow> bool" where
  "starts_with s [] = True"
| "starts_with [] (c # t) = False"
| "starts_with (a # s) (c # t) = (a = c \<and> starts_with s t)"

fun str_includes :: "string \<Rightarrow> string \<Rightarrow> bool" where
  "str_includes [] t = (t = [])"
| "str_includes (a # s) t = (starts_with (a # s) t \<or> str_includes s t)"

text \<open>
  \<open>after_response\<close> of the plugin in \<open>src/unnamed/part_000\<close>, for a key pressed at
  time \<open>t\<close>.
\<close>

definition after_response :: "kb_trial \<Rightarrow> real \<Rightarrow> string \<Rightarrow> kb_state \<Rightarrow> kb_state" where
  "after_response tr t key s =
     (let rt = t - kb_startTime s;
          s1 = (if key = ''enter'' then on_enter tr end_trial s else s);
          s2 = (if key = ''shift'' \<or> key = ''meta'' \<or> key = ''enter'' then s1
                else if key = [CHR 0x5C] \<or> key = ''backspace''
                then s1\<lparr>buffer := butlast (buffer s1), wholebuffer := butlast (wholebuffer s1)\<rparr>
                else if key = '' '' then
                  (let s3 = (if space_allowed tr then
                               (let s4 = s1\<lparr>words := words s1 @ [buffer s1], buffer := []\<rparr>
                                in if triggered s4
                                   then s4\<lparr>post_shown := True,
                                           eventTime := Num (kb_startTime s4 - t)\<rparr>
                                   else s4)
                             else s1\<lparr>buffer := buffer s1 @ '' ''\<rparr>)
                   in s3\<lparr>wholebuffer := wholebuffer s3 @ '' ''\<rparr>)
                else s1\<lparr>buffer := buffer s1 @ key, wholebuffer := wholebuffer s1 @ key\<rparr>);
          s5 = push_response key rt s2
      in if buffer s5 \<in> set (trigger_list tr) then s5\<lparr>triggered := True\<rparr> else s5)"

text \<open>
  \<open>after_response\<close> of the plugin in
  \<open>src/packages/plugin-image-keyboard-response-logger/src/index.ts\<close>. With
  \<open>dual_trial\<close> the variable \<open>canvas\<close> is undefined, so that
  \<open>changeImageOnCanvas\<close> throws at \<open>canvas.getContext\<close> and the listener ends
  there, after the word has been pushed.
\<close>

definition after_response_logger ::
  "kb_trial \<Rightarrow> real \<Rightarrow> string \<Rightarrow> kb_state \<Rightarrow> kb_state" where
  "after_response_logger tr t key s0 =
     (let rt = t - kb_startTime s0;
          s = s0\<lparr>fillStyle := ''black''\<rparr>;
          s1 = (if key = ''enter'' then on_enter tr (end_trial_logger t) s else s)
      in if key = '' '' \<and> space_allowed tr \<and> triggered s1 \<and> dual_trial tr
         then s1\<lparr>words := words s1 @ [buffer s1], buffer := []\<rparr>
         else
           (let s2 =
                  (if key = ''shift'' \<or> key = ''meta'' \<or> key = ''enter'' then s1
                   else if key = [CHR 0x5C] \<or> key = ''backspace''
                   then s1\<lparr>buffer := butlast (buffer s1),
                           wholebuffer := butlast (wholebuffer s1)\<rparr>
                   else if key = '' '' then
                     (let s3 =
                            (if space_allowed tr then
                               (let s4 = s1\<lparr>words := words s1 @ [buffer s1], buffer := []\<rparr>
                                in if triggered s4
                                   then s4\<lparr>post_shown := True,
                                           eventTime := Num (t - kb_startTime s4)\<rparr>
                                   else s4)
                             else s1\<lparr>buffer := buffer s1 @ '' ''\<rparr>)
                      in s3\<lparr>wholebuffer := wholebuffer s3 @ '' ''\<rparr>)
                   else s1\<lparr>buffer := buffer s1 @ key, wholebuffer := wholebuffer s1 @ key\<rparr>);
                s5 = push_response key rt s2
            in if list_ex (\<lambda>trigger. str_includes (buffer s5) trigger) (trigger_list tr)
               then s5\<lparr>triggered := True\<rparr> else s5))"

text \<open>
  The keyboard listener calls \<open>after_response\<close> for each key while it is registered;
  a key history is a list of keys with the times they were pressed.
\<close>

fun type_keys :: "kb_trial \<Rightarrow> (real \<times> string) list \<Rightarrow> kb_state \<Rightarrow> kb_state" where
  "type_keys tr [] s = s"
| "type_keys tr ((t, key) # ks) s =
     type_keys tr ks (if kb_listening s then after_response tr t key s else s)"

fun type_keys_logger :: "kb_trial \<Rightarrow> (real \<times> string) list \<Rightarrow> kb_state \<Rightarrow> kb_state" where
  "type_keys_logger tr [] s = s"
| "type_keys_logger tr ((t, key) # ks) s =
     type_keys_logger tr ks (if kb_listening s then after_response_logger tr t key s else s)"

section \<open>Example trials\<close>

text \<open>
  A silent window (every sample at the centre value 128) and a loud one, a quiet room,
  a speaker who starts at 100 ms and one who starts at 1100 ms; the default parameters
  of \<open>info\<close>, and the same with playback review, with \<open>save_audio_url\<close>, and with
  both; a keyboard trial whose trigger is the word \<open>a\<close>, and the key
  history \<open>a\<close>, space.
\<close>

definition silent :: "byte list" where
  "silent = replicate 16 128"

definition loud :: "byte list" where
  "loud = replicate 16 255"

definition quiet_room :: browser where
  "quiet_room =
     \<lparr>analyser = (\<lambda>t. silent), timeOrigin = 1700000000000, audioContext = True\<rparr>"

definition speaker :: browser where
  "speaker = \<lparr>analyser = (\<lambda>t. if t < 100 then silent else loud),
               timeOrigin = 1700000000000, audioContext = True\<rparr>"

definition late_speaker :: browser where
  "late_speaker = \<lparr>analyser = (\<lambda>t. if t < 1100 then silent else loud),
                    timeOrigin = 1700000000000, audioContext = True\<rparr>"

definition default_trial :: trial where
  "default_trial =
     \<lparr>stimulus = ''<p>Name the picture</p>'', stimulus_duration = None,
      recording_duration = Some 2000, show_done_button = True, allow_playback = False,
      save_audio_url = False, use_voice_key = False, amplitude_threshold = 1 / 10,
      timer_duration = 350\<rparr>"

definition playback_trial :: trial where
  "playback_trial = default_trial\<lparr>allow_playback := True\<rparr>"

definition url_trial :: trial where
  "url_trial = default_trial\<lparr>save_audio_url := True\<rparr>"

definition url_review_trial :: trial where
  "url_review_trial = playback_trial\<lparr>save_audio_url := True\<rparr>"

definition kb_example :: kb_trial where
  "kb_example =
     \<lparr>trigger_list = [''a''], trigger_end = False, space_allowed = True,
      correction_delay = 750, dual_trial = False\<rparr>"

definition kb_keys :: "(real \<times> string) list" where
  "kb_keys = [(100, ''a''), (200, '' '')]"

text \<open>
  A first attempt ended with the done button, the tasks of the playback review up to
  ``record again'' (the recording timeout of the first attempt runs meanwhile), and a
  second attempt.
\<close>

definition first_attempt :: "(real \<times> event) list" where
  "first_attempt = [(16, Layout 2), (800, ClickDone), (801, DataAvailable [1, 2, 3])]"

definition review :: "(real \<times> event) list" where
  "review = [(803, ReaderLoad 6), (2001, Timer 3), (3000, ClickRecordAgain)]"

definition second_attempt :: "(real \<times> event) list" where
  "second_attempt = [(3016, Layout 9), (3800, ClickDone), (3801, DataAvailable [4, 5, 6])]"

text \<open>
  With the speaker: the start event, the alert sound loaded, the first layout, and the
  polls every 5 ms up to the one at 100 ms; then the done button at 200 ms.
\<close>

definition on_time_polls :: "(real \<times> event) list" where
  "on_time_polls = map (\<lambda>k. (5 * real k - 10, Timer k)) [4..<23]"

definition spoken_start :: "(real \<times> event) list" where
  "spoken_start =
     [(1, StartEvent 1), (2, AudioLoaded), (4, Layout 2), (5, Timer 1)] @ on_time_polls"

definition stopped_at_200 :: "(real \<times> event) list" where
  "stopped_at_200 = [(200, ClickDone), (201, DataAvailable [1, 2, 3]), (202, StopEvent)]"

definition stopped_at_440 :: "(real \<times> event) list" where
  "stopped_at_440 = [(440, ClickDone), (441, DataAvailable [1, 2, 3]), (442, StopEvent)]"

text \<open>
  With the late speaker and playback review: a first attempt ended with the done button
  at 200 ms, ``record again'' at 1000 ms, and at 1100 ms the poll of the first attempt's
  watch (pending since the start of the trial and run late by the page) and the poll of
  the second attempt's watch.
\<close>

definition both_watches_cross :: "(real \<times> event) list" where
  "both_watches_cross =
     [(1, StartEvent 1), (2, AudioLoaded), (4, Layout 2)] @ stopped_at_200 @
     [(203, ReaderLoad 6), (1000, ClickRecordAgain), (1001, StartEvent 1001),
      (1004, Layout 9), (1100, Timer 1), (1100, Timer 8)]"

text \<open>
  The world a run of tasks leaves when the trial is started at time 0, and the result
  handed to \<open>finishTrial\<close> last, if any.
\<close>

definition world_after :: "trial \<Rightarrow> browser \<Rightarrow> (real \<times> event) list \<Rightarrow> world" where
  "world_after tr br tes = the (exec tr br (trial_method tr br 0) tes)"

definition last_result :: "world option \<Rightarrow> trial_data option" where
  "last_result r =
     (case r of
        None \<Rightarrow> None
      | Some w \<Rightarrow> (case rev (finished w) of [] \<Rightarrow> None | d # ds \<Rightarrow> Some d))"

section \<open>Encoding lemmas\<close>

lemma b64_not_comma: "b64 n \<noteq> CHR '',''"
proof -
  have len: "length b64chars = 64" by (simp add: b64chars_def)
  have "b64chars ! (n mod 64) \<in> set b64chars"
    by (rule nth_mem) (simp add: len)
  moreover have "CHR '','' \<notin> set b64chars" by (simp add: b64chars_def)
  ultimately show ?thesis unfolding b64_def by metis
qed

lemma base64_no_comma: "CHR '','' \<notin> set (base64 d)"
  by (induction d rule: base64.induct) (simp_all add: Let_def b64_not_comma [THEN not_sym])

lemma split_comma_none: "CHR '','' \<notin> set s \<Longrightarrow> split_comma s = [s]"
  by (induction s) auto

lemma split_readAsDataURL:
  "js_index (split_comma (readAsDataURL d)) (Suc 0) = Some (base64 d)"
  by (simp add: readAsDataURL_def js_index_def split_comma_none base64_no_comma)

lemma length_base64: "length (base64 d) = 4 * ((length d + 2) div 3)"
  by (induction d rule: base64.induct) (simp_all add: Let_def, arith)

lemma index_of_nth: "distinct xs \<Longrightarrow> n < length xs \<Longrightarrow> index_of xs (xs ! n) = n"
proof (induction xs arbitrary: n)
  case Nil
  then show ?case by simp
next
  case (Cons x xs)
  then show ?case by (cases n) (auto simp: nth_mem)
qed

lemma unb64_b64: "unb64 (b64 n) = n mod 64"
proof -
  have "distinct b64chars" by (simp add: b64chars_def)
  moreover have "n mod 64 < length b64chars" by (simp add: b64chars_def)
  ultimately show ?thesis unfolding unb64_def b64_def by (rule index_of_nth)
qed

lemma b64_not_pad: "b64 n \<noteq> CHR ''=''"
proof -
  have "b64chars ! (n mod 64) \<in> set b64chars"
    by (rule nth_mem) (simp add: b64chars_def)
  moreover have "CHR ''='' \<notin> set b64chars" by (simp add: b64chars_def)
  ultimately show ?thesis unfolding b64_def by metis
qed

lemma sextets:
  assumes "n < 16777216"
  shows "(n div 262144) mod 64 * 262144 + (n div 4096) mod 64 * 4096 +
         (n div 64) mod 64 * 64 + n mod 64 = (n::nat)"
proof -
  define m1 where "m1 = n div 64"
  define m2 where "m2 = m1 div 64"
  define m3 where "m3 = m2 div 64"
  have d2: "n div 4096 = m2" unfolding m2_def m1_def by (simp add: div_mult2_eq)
  have d3: "n div 262144 = m3" unfolding m3_def m2_def m1_def by (simp add: div_mult2_eq)
  have "m3 < 64" using assms unfolding d3 [symmetric] by simp
  then have m3: "m3 mod 64 = m3" by simp
  have e1: "n = m1 * 64 + n mod 64" unfolding m1_def by simp
  have e2: "m1 = m2 * 64 + m1 mod 64" unfolding m2_def by simp
  have e3: "m2 = m3 * 64 + m2 mod 64" unfolding m3_def by simp
  have "m3 * 262144 + m2 mod 64 * 4096 + m1 mod 64 * 64 + n mod 64
      = ((m3 * 64 + m2 mod 64) * 64 + m1 mod 64) * 64 + n mod 64"
    by (simp add: algebra_simps)
  also have "\<dots> = n" using e1 e2 e3 by simp
  finally show ?thesis using d2 d3 m3 by (simp add: m1_def)
qed

lemma triple:
  fixes a b c :: nat
  assumes "a < 256" "b < 256" "c < 256"
  shows "a * 65536 + b * 256 + c < 16777216"
    and "(a * 65536 + b * 256 + c) div 65536 = a"
    and "(a * 65536 + b * 256 + c) div 256 = a * 256 + b"
  using assms by simp_all

lemma low_sextets:
  fixes a b :: nat
  shows "(a * 65536 + b * 256) mod 64 = 0"
    and "(a * 65536) mod 64 = 0"
    and "(a * 65536) div 64 mod 64 = 0"
proof -
  have "(64::nat) dvd a * 65536 + b * 256" by (simp add: dvd_add dvd_mult)
  then show "(a * 65536 + b * 256) mod 64 = 0" by (rule dvd_imp_mod_0)
  have "(64::nat) dvd a * 65536" by (simp add: dvd_mult)
  then show "(a * 65536) mod 64 = 0" by (rule dvd_imp_mod_0)
  have "(a * 65536) div 64 = a * 1024" by simp
  moreover have "(64::nat) dvd a * 1024" by (simp add: dvd_mult)
  ultimately show "(a * 65536) div 64 mod 64 = 0" by (simp add: dvd_imp_mod_0)
qed

lemma byte_of_nat:
  "(of_nat (unat a) :: byte) = a"
  "(of_nat (unat a * 256 + unat b) :: byte) = b"
  "(of_nat (unat a * 65536 + unat b * 256 + unat c) :: byte) = c"
proof -
  have z: "(256 :: byte) = 0" "(65536 :: byte) = 0" by simp_all
  show "(of_nat (unat a) :: byte) = a" by simp
  show "(of_nat (unat a * 256 + unat b) :: byte) = b" by (simp add: z)
  show "(of_nat (unat a * 65536 + unat b * 256 + unat c) :: byte) = c" by (simp add: z)
qed

lemma byte_bound: "unat (a :: byte) < 256"
  using unsigned_less [of a, where 'a = nat] by simp

lemma decode_sextets:
  assumes "n < 16777216"
  shows "unb64 (b64 (n div 262144)) * 262144 + unb64 (b64 (n div 4096)) * 4096 +
         unb64 (b64 (n div 64)) * 64 + unb64 (b64 n) = n"
  unfolding unb64_b64 using assms by (rule sextets)

lemma decode_quad:
  assumes "n < 16777216"
  shows "base64_decode ([b64 (n div 262144), b64 (n div 4096), b64 (n div 64), b64 n] @ cs) =
           [of_nat (n div 65536), of_nat (n div 256), of_nat n] @ base64_decode cs"
  using decode_sextets [OF assms] by (simp add: Let_def b64_not_pad)

lemma decode_pad1:
  assumes "n < 16777216" "n mod 64 = 0"
  shows "base64_decode [b64 (n div 262144), b64 (n div 4096), b64 (n div 64), CHR ''=''] =
           [of_nat (n div 65536), of_nat (n div 256)]"
proof -
  have "unb64 (b64 n) = 0" using assms(2) by (simp add: unb64_b64)
  then have "unb64 (b64 (n div 262144)) * 262144 + unb64 (b64 (n div 4096)) * 4096 +
      unb64 (b64 (n div 64)) * 64 = n"
    using decode_sextets [OF assms(1)] by simp
  then show ?thesis by (simp add: Let_def b64_not_pad)
qed

lemma decode_pad2:
  assumes "n < 16777216" "n mod 64 = 0" "n div 64 mod 64 = 0"
  shows "base64_decode [b64 (n div 262144), b64 (n div 4096), CHR ''='', CHR ''=''] =
           [of_nat (n div 65536)]"
proof -
  have "unb64 (b64 n) = 0" "unb64 (b64 (n div 64)) = 0"
    using assms(2,3) by (simp_all add: unb64_b64)
  then have "unb64 (b64 (n div 262144)) * 262144 + unb64 (b64 (n div 4096)) * 4096 = n"
    using decode_sextets [OF assms(1)] by simp
  then show ?thesis by (simp add: Let_def b64_not_pad)
qed

lemma base64_decode_base64: "base64_decode (base64 d) = d"
proof (induction d rule: base64.induct)
  case 1
  then show ?case by simp
next
  case (2 a)
  define n where "n = unat a * 65536"
  have n: "n < 16777216" unfolding n_def using byte_bound [of a] by simp
  have z: "n mod 64 = 0" "n div 64 mod 64 = 0"
    unfolding n_def by (rule low_sextets)+
  have v: "n div 65536 = unat a" unfolding n_def by simp
  have "base64 [a] = [b64 (n div 262144), b64 (n div 4096), CHR ''='', CHR ''='']"
    by (simp add: n_def Let_def)
  then show ?case
    using decode_pad2 [OF n z] by (simp only: v byte_of_nat)
next
  case (3 a b)
  define n where "n = unat a * 65536 + unat b * 256"
  have n: "n < 16777216"
    unfolding n_def using triple(1) [of "unat a" "unat b" 0] byte_bound by simp
  have z: "n mod 64 = 0" unfolding n_def by (rule low_sextets)
  have v: "n div 65536 = unat a" "n div 256 = unat a * 256 + unat b"
    unfolding n_def using triple(2,3) [of "unat a" "unat b" 0] byte_bound by simp_all
  have "base64 [a, b] = [b64 (n div 262144), b64 (n div 4096), b64 (n div 64), CHR ''='']"
    by (simp add: n_def Let_def)
  then show ?case
    using decode_pad1 [OF n z] by (simp only: v byte_of_nat)
next
  case (4 a b c rest)
  define n where "n = unat a * 65536 + unat b * 256 + unat c"
  have n: "n < 16777216"
    unfolding n_def using triple(1) [of "unat a" "unat b" "unat c"] byte_bound by simp
  have v: "n div 65536 = unat a" "n div 256 = unat a * 256 + unat b"
    unfolding n_def using triple(2,3) [of "unat a" "unat b" "unat c"] byte_bound by simp_all
  have v3: "(of_nat n :: byte) = c" unfolding n_def by (rule byte_of_nat)
  have "base64 (a # b # c # rest) =
      [b64 (n div 262144), b64 (n div 4096), b64 (n div 64), b64 n] @ base64 rest"
    by (simp add: n_def Let_def)
  then show ?case
    using decode_quad [OF n, of "base64 rest"] 4 by (simp only: v v3 byte_of_nat append.simps)
qed

section \<open>Tasks, case by case\<close>

lemmas handler_defs = setTimeout_def clearAllTimeouts_def recorder_stop_def revokeObjectURL_def
  showDisplay_def hideStimulus_def showAlertImage_def playAlertSound_def addButtonEvent_def
  stopRecording_def showPlaybackControls_def endTrial_def after_stop_def done_click_def
  data_available_handler_def stop_event_handler_def reader_load_def start_event_handler_def
  recording_timeout_def resolve_watch_def reject_watch_def logAmplitude_def
  logAmplitudeUntilThresholdReached_def startRecording_def alert_callback_def

lemmas world_splits = if_splits option.splits list.splits recorder_event.splits screen.splits
  sound.splits

lemma run_callback_case:
  "run_callback tr br cb w =
     (case cb of
        HideStimulus \<Rightarrow> hideStimulus w
      | RecordingTimeout \<Rightarrow> recording_timeout w
      | LogAmplitude wid \<Rightarrow> logAmplitude tr br wid w
      | Alert wid triggerTime \<Rightarrow> alert_callback wid triggerTime w)"
  by (cases cb) simp_all

lemma step_cases [consumes 1, case_names AudioLoaded StartHeard StartUnheard DataHeard DataUnheard
    StopHeard StopUnheard Load Layout Timer Done DoneNoListener RecordAgain Continue]:
  assumes "step tr br te w = Some w'"
  obtains
    t where "te = (t, AudioLoaded)" "now w \<le> t" "alert_sound w = None"
      "w' = w\<lparr>now := t,
               alert_sound := Some (if audioContext br then BufferSource False else AudioElement)\<rparr>"
  | t ts q where "te = (t, StartEvent ts)" "now w \<le> t" "pending w = QStart # q" "ts \<le> t"
      "listeners w" "w' = start_event_handler tr ts (w\<lparr>now := t, pending := q\<rparr>)"
  | t ts q where "te = (t, StartEvent ts)" "now w \<le> t" "pending w = QStart # q" "ts \<le> t"
      "\<not> listeners w" "w' = w\<lparr>now := t, pending := q\<rparr>"
  | t d where "te = (t, DataAvailable d)" "now w \<le> t" "listeners w"
      "w' = data_available_handler d (w\<lparr>now := t\<rparr>)"
  | t d where "te = (t, DataAvailable d)" "now w \<le> t" "\<not> listeners w" "w' = w\<lparr>now := t\<rparr>"
  | t q where "te = (t, StopEvent)" "now w \<le> t" "pending w = QStop # q" "listeners w"
      "w' = stop_event_handler (w\<lparr>now := t, pending := q\<rparr>)"
  | t q where "te = (t, StopEvent)" "now w \<le> t" "pending w = QStop # q" "\<not> listeners w"
      "w' = w\<lparr>now := t, pending := q\<rparr>"
  | t k d where "te = (t, ReaderLoad k)" "now w \<le> t" "map_of (readers w) k = Some d"
      "w' = reader_load tr k d (w\<lparr>now := t\<rparr>)"
  | t k where "te = (t, Layout k)" "now w \<le> t" "k \<in> set (observers w)"
      "w' = w\<lparr>now := t, stimulus_start_time := Num t, observers := removeAll k (observers w)\<rparr>"
  | t h due cb where "te = (t, Timer h)" "now w \<le> t"
      "map_of (timeout_handlers w) h = Some (due, cb)" "due \<le> t"
      "w' = run_callback tr br cb
              (w\<lparr>now := t,
                 timeout_handlers := filter (\<lambda>x. fst x \<noteq> h) (timeout_handlers w)\<rparr>)"
  | t v a where "te = (t, ClickDone)" "now w \<le> t" "display w = StimulusScreen v a (Some True)"
      "w' = done_click (w\<lparr>now := t\<rparr>)"
  | t v a where "te = (t, ClickDone)" "now w \<le> t" "display w = StimulusScreen v a (Some False)"
      "w' = w\<lparr>now := t\<rparr>"
  | t u where "te = (t, ClickRecordAgain)" "now w \<le> t" "display w = PlaybackScreen u"
      "w' = startRecording tr br (revokeObjectURL (audio_url w) (w\<lparr>now := t\<rparr>))"
  | t u where "te = (t, ClickContinue)" "now w \<le> t" "display w = PlaybackScreen u"
      "w' = endTrial tr (w\<lparr>now := t\<rparr>)"
proof (cases te)
  case (Pair t e)
  with assms have t: "now w \<le> t" and h: "handle tr br e (w\<lparr>now := t\<rparr>) = Some w'"
    by (auto simp: step_def split: if_splits)
  show ?thesis
  proof (cases e)
    case AudioLoaded
    with Pair t h that(1) show ?thesis by (auto split: option.splits)
  next
    case (StartEvent ts)
    with Pair t h that(2,3) show ?thesis
      by (cases "listeners w") (auto simp: Let_def split: list.splits recorder_event.splits if_splits)
  next
    case (DataAvailable d)
    with Pair t h that(4,5) show ?thesis
      by (cases "listeners w") (auto split: if_splits)
  next
    case StopEvent
    with Pair t h that(6,7) show ?thesis
      by (cases "listeners w") (auto simp: Let_def split: list.splits recorder_event.splits if_splits)
  next
    case (ReaderLoad k)
    with Pair t h that(8) show ?thesis by (auto split: option.splits)
  next
    case (Layout k)
    with Pair t h that(9) show ?thesis by (auto split: if_splits)
  next
    case (Timer hd)
    with Pair t h that(10) show ?thesis by (auto split: option.splits if_splits)
  next
    case ClickDone
    with Pair t h that(11,12) show ?thesis
      by (auto split: screen.splits option.splits if_splits)
  next
    case ClickRecordAgain
    with Pair t h that(13) show ?thesis by (auto split: screen.splits)
  next
    case ClickContinue
    with Pair t h that(14) show ?thesis by (auto split: screen.splits)
  qed
qed

lemma exec_append:
  "exec tr br w (tes @ tes') =
     (case exec tr br w tes of None \<Rightarrow> None | Some w1 \<Rightarrow> exec tr br w1 tes')"
  by (induction tes arbitrary: w) (auto split: option.splits)

lemma exec_invariant:
  assumes "exec tr br w0 tes = Some w" and "P w0"
    and "\<And>w te w'. P w \<Longrightarrow> step tr br te w = Some w' \<Longrightarrow> P w'"
  shows "P w"
  using assms(1,2)
proof (induction tes arbitrary: w0)
  case Nil
  then show ?case by simp
next
  case (Cons te tes)
  then show ?case by (auto split: option.splits intro: assms(3))
qed

section \<open>What each listener leaves alone\<close>

lemma stop_resolved_frame [simp]:
  "stop_resolved (start_event_handler tr ts w) = stop_resolved w"
  "stop_resolved (data_available_handler d w) = stop_resolved w"
  "stop_resolved (stop_event_handler w) = stop_resolved w"
  "stop_resolved (run_callback tr br cb w) = stop_resolved w"
  "stop_resolved (done_click w) = stop_resolved w"
  "stop_resolved (startRecording tr br w) = stop_resolved w"
  "stop_resolved (revokeObjectURL u w) = stop_resolved w"
  "stop_resolved (endTrial tr w) = stop_resolved w"
  by (simp_all add: handler_defs run_callback_case Let_def split: world_splits callback.splits)

lemma readers_frame [simp]:
  "readers (start_event_handler tr ts w) = readers w"
  "readers (data_available_handler d w) = readers w"
  "readers (run_callback tr br cb w) = readers w"
  "readers (done_click w) = readers w"
  "readers (startRecording tr br w) = readers w"
  "readers (revokeObjectURL u w) = readers w"
  "readers (endTrial tr w) = readers w"
  by (simp_all add: handler_defs run_callback_case Let_def split: world_splits callback.splits)

lemma chunks_frame [simp]:
  "recorded_data_chunks (stop_event_handler w) = recorded_data_chunks w"
  "recorded_data_chunks (run_callback tr br cb w) = recorded_data_chunks w"
  "recorded_data_chunks (done_click w) = recorded_data_chunks w"
  "recorded_data_chunks (startRecording tr br w) = recorded_data_chunks w"
  "recorded_data_chunks (revokeObjectURL u w) = recorded_data_chunks w"
  "recorded_data_chunks (endTrial tr w) = recorded_data_chunks w"
  "recorded_data_chunks (reader_load tr k d w) = recorded_data_chunks w"
  by (simp_all add: handler_defs run_callback_case Let_def split: world_splits callback.splits)

lemma listeners_frame [simp]:
  "listeners (start_event_handler tr ts w) = listeners w"
  "listeners (data_available_handler d w) = listeners w"
  "listeners (stop_event_handler w) = listeners w"
  "listeners (run_callback tr br cb w) = listeners w"
  "listeners (done_click w) = listeners w"
  "listeners (startRecording tr br w) = listeners w"
  "listeners (revokeObjectURL u w) = listeners w"
  "listeners (endTrial tr w) = False"
  by (simp_all add: handler_defs run_callback_case Let_def split: world_splits callback.splits)

lemma response_frame [simp]:
  "response (endTrial tr w) = response w"
  "response (showPlaybackControls w) = response w"
  by (simp_all add: handler_defs Let_def split: world_splits)

lemma finished_frame [simp]:
  "finished (start_event_handler tr ts w) = finished w"
  "finished (data_available_handler d w) = finished w"
  "finished (stop_event_handler w) = finished w"
  "finished (run_callback tr br cb w) = finished w"
  "finished (done_click w) = finished w"
  "finished (startRecording tr br w) = finished w"
  "finished (revokeObjectURL u w) = finished w"
  by (simp_all add: handler_defs run_callback_case Let_def split: world_splits callback.splits)

lemma reader_load_effect:
  "response (reader_load tr k d w) = Some (base64 d)"
  "readers (reader_load tr k d w) = filter (\<lambda>x. fst x \<noteq> k) (readers w)"
  "listeners (reader_load tr k d w) \<Longrightarrow> listeners w"
  by (simp_all add: reader_load_def after_stop_def showPlaybackControls_def Let_def split_readAsDataURL
      split: world_splits)




section \<open>The chunk buffer and the readers along a run\<close>











section \<open>Evaluating runs\<close>

lemmas js_defs = js_gt_def js_sub_def Math_round_def js_nonneg_def

lemma foldl_replicate_add: "foldl (\<lambda>s x. s + f x) a (replicate n v) = a + real n * f v"
  by (induction n arbitrary: a) (simp_all add: algebra_simps)

lemma amplitude_silent: "amplitude silent = Num 0"
  by (simp add: amplitude_def silent_def sample_value_def foldl_replicate_add)

lemma amplitude_loud: "amplitude loud = Num (127 / 128)"
proof -
  have "sqrt (16129 / 16384) = (127 / 128 :: real)"
    by (rule real_sqrt_unique) (simp_all add: power2_eq_square)
  then show ?thesis
    by (simp add: amplitude_def loud_def sample_value_def foldl_replicate_add)
qed

lemmas run_defs = step_def handler_defs new_plugin_def setupRecordingEvents_def trial_method_def
  delivers_data_def Date_now_def settled_def js_defs Let_def split_readAsDataURL
  amplitude_silent amplitude_loud b64_def b64chars_def last_result_def

lemmas example_defs = late_speaker_def stopped_at_440_def both_watches_cross_def
  url_trial_def url_review_trial_def world_after_def playback_trial_def default_trial_def
  quiet_room_def
  speaker_def first_attempt_def review_def second_attempt_def on_time_polls_def
  spoken_start_def stopped_at_200_def


section \<open>The polls of a watch along a run\<close>

lemma filter_filter_le: "length (filter P (filter Q xs)) \<le> length (filter P xs)"
  by (induction xs) auto

lemma filter_filter_less:
  "x \<in> set xs \<Longrightarrow> P x \<Longrightarrow> \<not> Q x \<Longrightarrow> length (filter P (filter Q xs)) < length (filter P xs)"
proof (induction xs)
  case Nil
  then show ?case by simp
next
  case (Cons a xs)
  have "length (filter P (filter Q xs)) \<le> length (filter P xs)" by (rule filter_filter_le)
  with Cons show ?case by (auto simp: less_Suc_eq_le)
qed

lemmas poll_defs = poll_inv_def polls_def settled_def

lemma poll_inv_field [simp]:
  "poll_inv wid (w\<lparr>now := t\<rparr>) = poll_inv wid w"
  "poll_inv wid (w\<lparr>pending := q\<rparr>) = poll_inv wid w"
  "poll_inv wid (w\<lparr>alert_sound := b\<rparr>) = poll_inv wid w"
  "poll_inv wid (w\<lparr>stimulus_start_time := s\<rparr>) = poll_inv wid w"
  "poll_inv wid (w\<lparr>observers := os\<rparr>) = poll_inv wid w"
  by (simp_all add: poll_defs)

lemma poll_inv_handlers:
  assumes "poll_inv wid w"
  shows "poll_inv wid (start_event_handler tr ts w)"
    and "poll_inv wid (data_available_handler d w)"
    and "poll_inv wid (stop_event_handler w)"
    and "poll_inv wid (endTrial tr w)"
    and "poll_inv wid (reader_load tr k d w)"
    and "poll_inv wid (done_click w)"
    and "poll_inv wid (revokeObjectURL u w)"
    and "poll_inv wid (hideStimulus w)"
    and "poll_inv wid (recording_timeout w)"
    and "poll_inv wid (alert_callback i tt w)"
  using assms
  by (auto simp: poll_defs handler_defs Let_def split: world_splits)

lemma poll_inv_logAmplitude:
  assumes "poll_inv wid w" "wid' = wid \<longrightarrow> polls wid w = 0 \<and> \<not> settled wid w \<and> wid < next_id w"
  shows "poll_inv wid (logAmplitude tr br wid' w)"
  using assms
  by (auto simp: poll_defs handler_defs Let_def split: world_splits)

lemma poll_inv_startRecording:
  assumes "poll_inv wid w"
  shows "poll_inv wid (startRecording tr br w)"
proof (cases "recorder w \<noteq> Inactive")
  case True
  then show ?thesis using assms by (simp add: startRecording_def)
next
  case False
  let ?w1 = "w\<lparr>recorder := Recording, pending := pending w @ [QStart], startTime := Num (now w),
                next_id := Suc (next_id w)\<rparr>"
  have 1: "poll_inv wid ?w1" using assms by (auto simp: poll_defs)
  have 2: "next_id w = wid \<longrightarrow> polls wid ?w1 = 0 \<and> \<not> settled wid ?w1 \<and> wid < next_id ?w1"
    using assms by (auto simp: poll_defs)
  have "startRecording tr br w = logAmplitude tr br (next_id w) ?w1"
    using False by (simp add: startRecording_def logAmplitudeUntilThresholdReached_def)
  then show ?thesis using poll_inv_logAmplitude [OF 1 2] by simp
qed

lemma poll_inv_filter:
  assumes "poll_inv wid w"
  shows "poll_inv wid (w\<lparr>timeout_handlers := filter Q (timeout_handlers w)\<rparr>)"
proof -
  have "length (filter (\<lambda>x. snd (snd x) = LogAmplitude wid) (filter Q (timeout_handlers w)))
      \<le> length (filter (\<lambda>x. snd (snd x) = LogAmplitude wid) (timeout_handlers w))"
    by (rule filter_filter_le)
  then show ?thesis using assms by (auto simp: poll_defs)
qed

lemma poll_fired:
  assumes "poll_inv wid w" "map_of (timeout_handlers w) h = Some (due, LogAmplitude wid)"
  shows "polls wid (w\<lparr>now := t, timeout_handlers := filter (\<lambda>x. fst x \<noteq> h) (timeout_handlers w)\<rparr>) = 0"
    and "\<not> settled wid w" and "wid < next_id w"
proof -
  have m: "(h, due, LogAmplitude wid) \<in> set (timeout_handlers w)"
    using assms(2) by (rule map_of_SomeD)
  have "length (filter (\<lambda>x. snd (snd x) = LogAmplitude wid)
          (filter (\<lambda>x. fst x \<noteq> h) (timeout_handlers w)))
      < length (filter (\<lambda>x. snd (snd x) = LogAmplitude wid) (timeout_handlers w))"
    by (rule filter_filter_less [OF m]) simp_all
  then have lt: "polls wid (w\<lparr>now := t, timeout_handlers := filter (\<lambda>x. fst x \<noteq> h) (timeout_handlers w)\<rparr>)
      < polls wid w"
    by (simp add: polls_def)
  with assms(1) show "polls wid (w\<lparr>now := t, timeout_handlers := filter (\<lambda>x. fst x \<noteq> h) (timeout_handlers w)\<rparr>) = 0"
    by (auto simp: poll_inv_def split: if_splits)
  from lt assms(1) show "\<not> settled wid w" and "wid < next_id w"
    by (auto simp: poll_inv_def split: if_splits)
qed

lemma step_poll_inv:
  assumes "step tr br te w = Some w'" "poll_inv wid w"
  shows "poll_inv wid w'"
  using assms
proof (cases rule: step_cases)
  case (Timer t h due cb)
  let ?w1 = "w\<lparr>now := t, timeout_handlers := filter (\<lambda>x. fst x \<noteq> h) (timeout_handlers w)\<rparr>"
  have 1: "poll_inv wid ?w1"
    using poll_inv_filter [OF assms(2), of "\<lambda>x. fst x \<noteq> h"] by (simp add: poll_defs)
  show ?thesis
  proof (cases cb)
    case (LogAmplitude wid')
    have "wid' = wid \<longrightarrow> polls wid ?w1 = 0 \<and> \<not> settled wid ?w1 \<and> wid < next_id ?w1"
    proof
      assume "wid' = wid"
      then have m: "map_of (timeout_handlers w) h = Some (due, LogAmplitude wid)"
        using Timer(3) LogAmplitude by simp
      show "polls wid ?w1 = 0 \<and> \<not> settled wid ?w1 \<and> wid < next_id ?w1"
        using poll_fired [OF assms(2) m] by (simp add: settled_def)
    qed
    then show ?thesis
      using Timer LogAmplitude poll_inv_logAmplitude [OF 1] by simp
  qed (use Timer 1 in \<open>simp_all add: poll_inv_handlers\<close>)
qed (simp_all add: poll_inv_handlers poll_inv_startRecording)

lemma poll_inv_init: "poll_inv wid (trial_method tr br t0)"
proof -
  have "poll_inv wid (setupRecordingEvents (new_plugin t0))"
    by (simp add: poll_defs setupRecordingEvents_def new_plugin_def)
  then show ?thesis unfolding trial_method_def by (rule poll_inv_startRecording)
qed

lemma run_poll_inv:
  assumes "exec tr br (trial_method tr br t0) tes = Some w"
  shows "poll_inv wid w"
  using assms poll_inv_init by (rule exec_invariant) (rule step_poll_inv)

section \<open>The timeout of a watch\<close>

lemma js_gt_Undefined [simp]: "js_gt a Undefined = False"
  by (simp add: js_gt_def split: option.splits)

lemma timeout_frame [simp]:
  "timeout (start_event_handler tr ts w) = timeout w"
  "timeout (data_available_handler d w) = timeout w"
  "timeout (stop_event_handler w) = timeout w"
  "timeout (reader_load tr k d w) = timeout w"
  "timeout (run_callback tr br cb w) = timeout w"
  "timeout (done_click w) = timeout w"
  "timeout (startRecording tr br w) = timeout w"
  "timeout (revokeObjectURL u w) = timeout w"
  "timeout (endTrial tr w) = timeout w"
  by (simp_all add: handler_defs run_callback_case Let_def split: world_splits callback.splits)

lemma rejected_frame [simp]:
  "watch_rejected (start_event_handler tr ts w) = watch_rejected w"
  "watch_rejected (data_available_handler d w) = watch_rejected w"
  "watch_rejected (stop_event_handler w) = watch_rejected w"
  "watch_rejected (reader_load tr k d w) = watch_rejected w"
  "watch_rejected (done_click w) = watch_rejected w"
  "watch_rejected (revokeObjectURL u w) = watch_rejected w"
  "watch_rejected (endTrial tr w) = watch_rejected w"
  by (simp_all add: handler_defs Let_def split: world_splits)

lemma rejected_never:
  assumes "timeout w = Undefined"
  shows "watch_rejected (run_callback tr br cb w) = watch_rejected w"
    and "watch_rejected (startRecording tr br w) = watch_rejected w"
  using assms
  by (simp_all add: handler_defs run_callback_case Let_def split: world_splits callback.splits)

lemma step_no_timeout:
  assumes "step tr br te w = Some w'" "timeout w = Undefined \<and> watch_rejected w = {}"
  shows "timeout w' = Undefined \<and> watch_rejected w' = {}"
  using assms by (cases rule: step_cases) (simp_all add: rejected_never)

lemma run_no_timeout:
  assumes "exec tr br (trial_method tr br t0) tes = Some w"
  shows "timeout w = Undefined \<and> watch_rejected w = {}"
proof -
  have "timeout (trial_method tr br t0) = Undefined \<and> watch_rejected (trial_method tr br t0) = {}"
    by (simp add: trial_method_def rejected_never setupRecordingEvents_def new_plugin_def)
  with assms show ?thesis by (rule exec_invariant) (rule step_no_timeout)
qed

lemma quiet_tick:
  assumes "timeout w = Undefined"
    and "\<not> js_gt (amplitude (analyser br (now w))) (Num (amplitude_threshold tr))"
  shows "logAmplitude tr br wid w = setTimeout (LogAmplitude wid) 5 w"
  using assms by (simp add: logAmplitude_def)

text \<open>
  C2: the field \<open>timeout\<close> that \<open>logAmplitude\<close> compares the elapsed time with is
  declared and never assigned. Along every run from the start of the trial it is
  \<open>undefined\<close>, the comparison is false, and no watch is ever rejected: a poll that
  finds the amplitude at or below the threshold always schedules the next poll 5 ms
  later, however much time has passed.
\<close>

theorem watch_never_times_out:
  assumes "exec tr br (trial_method tr br t0) tes = Some w"
  shows "timeout w = Undefined \<and> watch_rejected w = {} \<and>
         (\<not> js_gt (amplitude (analyser br (now w))) (Num (amplitude_threshold tr)) \<longrightarrow>
            logAmplitude tr br wid w = setTimeout (LogAmplitude wid) 5 w)"
  using run_no_timeout [OF assms] by (simp add: quiet_tick)

text \<open>
  A quiet room: after 60 seconds the watch is not rejected and its next poll is pending.
\<close>

theorem watch_never_times_out_witness:
  "exec default_trial quiet_room (trial_method default_trial quiet_room 0)
      [(1, StartEvent 1), (5, Timer 1), (400, Timer 4), (60000, Timer 5)]
     = Some (world_after default_trial quiet_room
         [(1, StartEvent 1), (5, Timer 1), (400, Timer 4), (60000, Timer 5)])
   \<and> watch_rejected (world_after default_trial quiet_room
         [(1, StartEvent 1), (5, Timer 1), (400, Timer 4), (60000, Timer 5)]) = {}
   \<and> timeout_handlers (world_after default_trial quiet_room
         [(1, StartEvent 1), (5, Timer 1), (400, Timer 4), (60000, Timer 5)])
     = [(3, 2001, RecordingTimeout), (6, 60005, LogAmplitude 0)]
   \<and> logAmplitude default_trial quiet_room 0 (world_after default_trial quiet_room
         [(1, StartEvent 1), (5, Timer 1), (400, Timer 4), (60000, Timer 5)])
     = setTimeout (LogAmplitude 0) 5 (world_after default_trial quiet_room
         [(1, StartEvent 1), (5, Timer 1), (400, Timer 4), (60000, Timer 5)])"
proof -
  let ?w = "world_after default_trial quiet_room
         [(1, StartEvent 1), (5, Timer 1), (400, Timer 4), (60000, Timer 5)]"
  have e: "exec default_trial quiet_room (trial_method default_trial quiet_room 0)
      [(1, StartEvent 1), (5, Timer 1), (400, Timer 4), (60000, Timer 5)] = Some ?w"
    by (simp add: run_defs example_defs)
  have q: "\<not> js_gt (amplitude (analyser quiet_room (now ?w)))
             (Num (amplitude_threshold default_trial))"
    by (simp add: quiet_room_def default_trial_def amplitude_silent js_gt_def)
  have t: "timeout_handlers ?w = [(3, 2001, RecordingTimeout), (6, 60005, LogAmplitude 0)]"
    by (simp add: run_defs example_defs)
  from watch_never_times_out [OF e, of 0] q e t show ?thesis by simp
qed

section \<open>The ticks of a watch\<close>

lemma foldl_add_sum_list: "foldl (\<lambda>sum s. sum + f s) a xs = a + sum_list (map f xs)"
  by (induction xs arbitrary: a) (simp_all add: add.assoc)

lemma amplitude_rms: "amplitude samples = (if samples = [] then NaN else Num (rms samples))"
  by (simp add: amplitude_def rms_def sample_value_def foldl_add_sum_list power2_eq_square Let_def)

lemma loud_tick:
  assumes inv: "poll_inv wid w"
    and timer: "map_of (timeout_handlers w) h = Some (due, LogAmplitude wid)"
    and time: "due \<le> t" "now w \<le> t"
    and loud: "js_gt (amplitude (analyser br t)) (Num (amplitude_threshold tr))"
  shows "\<exists>w'. step tr br (t, Timer h) w = Some w' \<and>
           watch_resolved w' = watch_resolved w @ [(wid, t)] \<and> polls wid w' = 0 \<and>
           (next_id w, t + max 0 (real_of_int (timer_duration tr)), Alert wid t)
             \<in> set (timeout_handlers w')"
proof -
  let ?w1 = "w\<lparr>now := t, timeout_handlers := filter (\<lambda>x. fst x \<noteq> h) (timeout_handlers w)\<rparr>"
  have p: "polls wid ?w1 = 0" and s: "\<not> settled wid w"
    using poll_fired [OF inv timer] by simp_all
  have "step tr br (t, Timer h) w = Some (logAmplitude tr br wid ?w1)"
    using timer time by (simp add: step_def)
  moreover have "logAmplitude tr br wid ?w1 =
      setTimeout (Alert wid t) (real_of_int (timer_duration tr))
        (?w1\<lparr>watch_resolved := watch_resolved w @ [(wid, t)]\<rparr>)"
    using loud s by (simp add: logAmplitude_def resolve_watch_def settled_def)
  ultimately show ?thesis
    using p by (simp add: setTimeout_def polls_def)
qed

lemma quiet_tick_step:
  assumes inv: "poll_inv wid w"
    and timer: "map_of (timeout_handlers w) h = Some (due, LogAmplitude wid)"
    and time: "due \<le> t" "now w \<le> t"
    and quiet: "\<not> js_gt (amplitude (analyser br t)) (Num (amplitude_threshold tr))"
    and never: "timeout w = Undefined"
  shows "\<exists>w'. step tr br (t, Timer h) w = Some w' \<and>
           watch_resolved w' = watch_resolved w \<and> polls wid w' = 1 \<and>
           (next_id w, t + 5, LogAmplitude wid) \<in> set (timeout_handlers w')"
proof -
  let ?w1 = "w\<lparr>now := t, timeout_handlers := filter (\<lambda>x. fst x \<noteq> h) (timeout_handlers w)\<rparr>"
  have p: "polls wid ?w1 = 0"
    using poll_fired [OF inv timer] by simp_all
  have "step tr br (t, Timer h) w = Some (logAmplitude tr br wid ?w1)"
    using timer time by (simp add: step_def)
  moreover have "logAmplitude tr br wid ?w1 = setTimeout (LogAmplitude wid) 5 ?w1"
    using quiet never by (simp add: quiet_tick)
  ultimately show ?thesis
    using p by (simp add: setTimeout_def polls_def)
qed

lemma first_tick:
  assumes "js_gt (amplitude (analyser br t0)) (Num (amplitude_threshold tr))"
  shows "watch_resolved (trial_method tr br t0) = [(0, t0)] \<and> polls 0 (trial_method tr br t0) = 0"
  using assms
  by (simp add: trial_method_def setupRecordingEvents_def new_plugin_def startRecording_def
      logAmplitudeUntilThresholdReached_def logAmplitude_def resolve_watch_def settled_def
      setTimeout_def polls_def)

text \<open>
  C3: the amplitude of a poll is the root mean square of the normalised samples
  (\<open>NaN\<close> for an empty window). Along every run from the start of the trial a watch
  has at most one poll pending and none once it is settled. When a pending poll of a
  watch runs at time \<open>t\<close> and the amplitude exceeds the threshold, the watch is
  resolved with the onset time \<open>t\<close>, its alert is scheduled \<open>timer_duration\<close> later,
  and no poll of it is left; otherwise the next poll is scheduled 5 ms later and the
  watch is not resolved. The first tick runs inside \<open>startRecording\<close>.
\<close>

theorem watch_is_one_shot:
  assumes "exec tr br (trial_method tr br t0) tes = Some w"
  shows "amplitude samples = (if samples = [] then NaN else Num (rms samples))
       \<and> polls wid w \<le> 1
       \<and> (settled wid w \<longrightarrow> polls wid w = 0)
       \<and> (map_of (timeout_handlers w) h = Some (due, LogAmplitude wid) \<and> due \<le> t \<and> now w \<le> t \<longrightarrow>
            (if js_gt (amplitude (analyser br t)) (Num (amplitude_threshold tr))
             then \<exists>w'. step tr br (t, Timer h) w = Some w' \<and>
                    watch_resolved w' = watch_resolved w @ [(wid, t)] \<and> polls wid w' = 0 \<and>
                    (next_id w, t + max 0 (real_of_int (timer_duration tr)), Alert wid t)
                      \<in> set (timeout_handlers w')
             else \<exists>w'. step tr br (t, Timer h) w = Some w' \<and>
                    watch_resolved w' = watch_resolved w \<and> polls wid w' = 1 \<and>
                    (next_id w, t + 5, LogAmplitude wid) \<in> set (timeout_handlers w')))
       \<and> (js_gt (amplitude (analyser br t0)) (Num (amplitude_threshold tr)) \<longrightarrow>
            watch_resolved (trial_method tr br t0) = [(0, t0)] \<and>
            polls 0 (trial_method tr br t0) = 0)"
proof -
  have inv: "poll_inv wid w" using assms by (rule run_poll_inv)
  have never: "timeout w = Undefined" using run_no_timeout [OF assms] by simp
  have "polls wid w \<le> 1" and "settled wid w \<longrightarrow> polls wid w = 0"
    using inv by (auto simp: poll_inv_def split: if_splits)
  then show ?thesis
    using loud_tick [OF inv, of h due t br tr] quiet_tick_step [OF inv, of h due t br tr] never
      first_tick [of br t0 tr] amplitude_rms [of samples]
    by auto
qed

text \<open>The speaker starts at 100 ms: the poll at 100 ms resolves the watch.\<close>

theorem watch_is_one_shot_witness:
  "exec default_trial speaker (trial_method default_trial speaker 0)
      [(1, StartEvent 1), (5, Timer 1)]
     = Some (world_after default_trial speaker [(1, StartEvent 1), (5, Timer 1)])
   \<and> watch_resolved (world_after default_trial speaker [(1, StartEvent 1), (5, Timer 1)]) = []
   \<and> watch_resolved (world_after default_trial speaker
        [(1, StartEvent 1), (5, Timer 1), (100, Timer 4)]) = [(0, 100)]
   \<and> polls 0 (world_after default_trial speaker
        [(1, StartEvent 1), (5, Timer 1), (100, Timer 4)]) = 0
   \<and> (5, 450, Alert 0 100) \<in> set (timeout_handlers (world_after default_trial speaker
        [(1, StartEvent 1), (5, Timer 1), (100, Timer 4)]))"
proof -
  let ?tr = default_trial and ?br = speaker
  let ?w = "world_after ?tr ?br [(1, StartEvent 1), (5, Timer 1)]"
  let ?w' = "world_after ?tr ?br [(1, StartEvent 1), (5, Timer 1), (100, Timer 4)]"
  have e: "exec ?tr ?br (trial_method ?tr ?br 0) [(1, StartEvent 1), (5, Timer 1)] = Some ?w"
    by (simp add: run_defs example_defs)
  have m: "map_of (timeout_handlers ?w) 4 = Some (10, LogAmplitude 0)"
    and n: "now ?w \<le> 100" and r: "watch_resolved ?w = []" and i: "next_id ?w = 5"
    by (simp_all add: run_defs example_defs)
  have l: "js_gt (amplitude (analyser ?br 100)) (Num (amplitude_threshold ?tr))"
    by (simp add: speaker_def default_trial_def amplitude_loud js_gt_def)
  have s: "step ?tr ?br (100, Timer 4) ?w = Some ?w'"
    by (simp add: run_defs example_defs)
  have d: "timer_duration ?tr = 350" by (simp add: default_trial_def)
  from watch_is_one_shot [OF e, of "[]" 0 4 10 100] m n l
  have "\<exists>w'. step ?tr ?br (100, Timer 4) ?w = Some w' \<and>
           watch_resolved w' = watch_resolved ?w @ [(0, 100)] \<and> polls 0 w' = 0 \<and>
           (next_id ?w, 100 + max 0 (real_of_int (timer_duration ?tr)), Alert 0 100)
             \<in> set (timeout_handlers w')"
    by simp
  with s r i d e show ?thesis by auto
qed

section \<open>The alert callbacks of an attempt\<close>

text \<open>
  C4 fails on both counts, because the only \<open>clearAllTimeouts\<close> is the one of
  \<open>endTrial\<close>. (a) With playback review, a first attempt without an onset is ended
  with the done button at 200 ms and reviewed, and ``record again'' at 1000 ms starts
  the second attempt with a watch of its own, while the poll of the first attempt's
  watch is still pending. The participant speaks at 1100 ms: both watches see the
  crossing, two alert timeouts are pending, and the alert callback runs twice within
  the second attempt, at 1450 ms, while the recorder records. The second run shows the
  image again and starts the sound again: the buffer source node, already started,
  throws (one successful call), an audio element is asked to play a second time (two
  calls). (b) Without playback, with the onset at 100 ms and the alert due at 450 ms,
  the done button at 440 ms stops the recorder, and the alert callback still runs at
  450 ms, showing the image and starting the sound, because \<open>endTrial\<close> only runs
  once the recording is encoded, at 460 ms.
\<close>

theorem alert_runs_twice_and_after_stop:
  "timeout_handlers (world_after playback_trial late_speaker both_watches_cross)
     = [(3, 2001, RecordingTimeout), (10, 3001, RecordingTimeout),
        (11, 1450, Alert 0 1100), (12, 1450, Alert 7 1100)]
   \<and> alerts (world_after playback_trial late_speaker
        (both_watches_cross @ [(1450, Timer 11)])) = [(0, 1100, 1450)]
   \<and> sounds (world_after playback_trial late_speaker
        (both_watches_cross @ [(1450, Timer 11)])) = 1
   \<and> alerts (world_after playback_trial late_speaker
        (both_watches_cross @ [(1450, Timer 11), (1450, Timer 12)]))
      = [(0, 1100, 1450), (7, 1100, 1450)]
   \<and> recorder (world_after playback_trial late_speaker
        (both_watches_cross @ [(1450, Timer 11), (1450, Timer 12)])) = Recording
   \<and> display (world_after playback_trial late_speaker
        (both_watches_cross @ [(1450, Timer 11), (1450, Timer 12)]))
      = StimulusScreen True True (Some True)
   \<and> sounds (world_after playback_trial late_speaker
        (both_watches_cross @ [(1450, Timer 11), (1450, Timer 12)])) = 1
   \<and> sounds (world_after playback_trial (late_speaker\<lparr>audioContext := False\<rparr>)
        (both_watches_cross @ [(1450, Timer 11), (1450, Timer 12)])) = 2
   \<and> recorder (world_after default_trial speaker (spoken_start @ stopped_at_440)) = Inactive
   \<and> timeout_handlers (world_after default_trial speaker (spoken_start @ stopped_at_440))
      = [(3, 2001, RecordingTimeout), (23, 450, Alert 0 100)]
   \<and> alerts (world_after default_trial speaker
        (spoken_start @ stopped_at_440 @ [(450, Timer 23)])) = [(0, 100, 450)]
   \<and> display (world_after default_trial speaker
        (spoken_start @ stopped_at_440 @ [(450, Timer 23)]))
      = StimulusScreen True True (Some True)
   \<and> sounds (world_after default_trial speaker
        (spoken_start @ stopped_at_440 @ [(450, Timer 23)])) = 1
   \<and> finished (world_after default_trial speaker
        (spoken_start @ stopped_at_440 @ [(450, Timer 23)])) = []
   \<and> map data_response (finished (world_after default_trial speaker
        (spoken_start @ stopped_at_440 @ [(450, Timer 23), (460, ReaderLoad 26)])))
      = [Some ''AQID'']"
  by (simp add: run_defs example_defs)

section \<open>The end of an attempt with playback review\<close>

text \<open>
  C5: with \<open>allow_playback\<close>, the done button at 200 ms ends the attempt and the
  playback controls are shown at 203 ms, but \<open>showPlaybackControls\<close> cancels nothing:
  the recording timeout and the alert are still pending, the alert callback runs at
  450 ms during the review and starts the sound, and after ``record again'' at 1000 ms
  the recording timeout of the first attempt, due at 2001 ms, stops the second attempt.
\<close>

theorem playback_review_keeps_timers:
  "display (world_after playback_trial speaker
      (spoken_start @ stopped_at_200 @ [(203, ReaderLoad 26)])) = PlaybackScreen (Some 25)
   \<and> timeout_handlers (world_after playback_trial speaker
      (spoken_start @ stopped_at_200 @ [(203, ReaderLoad 26)]))
     = [(3, 2001, RecordingTimeout), (23, 450, Alert 0 100)]
   \<and> alerts (world_after playback_trial speaker
      (spoken_start @ stopped_at_200 @ [(203, ReaderLoad 26), (450, Timer 23)]))
     = [(0, 100, 450)]
   \<and> sounds (world_after playback_trial speaker
      (spoken_start @ stopped_at_200 @ [(203, ReaderLoad 26), (450, Timer 23)])) = 1
   \<and> recorder (world_after playback_trial speaker
      (spoken_start @ stopped_at_200 @ [(203, ReaderLoad 26), (450, Timer 23),
         (1000, ClickRecordAgain), (1001, StartEvent 1001)])) = Recording
   \<and> recorder (world_after playback_trial speaker
      (spoken_start @ stopped_at_200 @ [(203, ReaderLoad 26), (450, Timer 23),
         (1000, ClickRecordAgain), (1001, StartEvent 1001), (2001, Timer 3)])) = Inactive
   \<and> pending (world_after playback_trial speaker
      (spoken_start @ stopped_at_200 @ [(203, ReaderLoad 26), (450, Timer 23),
         (1000, ClickRecordAgain), (1001, StartEvent 1001), (2001, Timer 3)])) = [QStop]"
  by (simp add: run_defs example_defs)

section \<open>The two timestamps along a run\<close>

lemma onset_inv_start:
  "ts \<le> now w \<Longrightarrow> onset_inv (start_event_handler tr ts w)"
  by (simp add: onset_inv_def handler_defs Let_def split: world_splits)

lemma onset_inv_idle:
  assumes "onset_inv w"
  shows "onset_inv (data_available_handler d w)"
    and "onset_inv (hideStimulus w)"
    and "onset_inv (logAmplitude tr br wid w)"
    and "onset_inv (alert_callback i tt w)"
  using assms
  by (auto simp: onset_inv_def handler_defs Let_def split: world_splits jsnum.splits)

lemma onset_inv_started:
  assumes "onset_inv w" "recorder_start_time w \<noteq> Undefined"
  shows "onset_inv (stop_event_handler w)"
    and "onset_inv (reader_load tr k d w)"
    and "onset_inv (done_click w)"
    and "onset_inv (recording_timeout w)"
    and "onset_inv (startRecording tr br w)"
    and "onset_inv (revokeObjectURL u w)"
    and "onset_inv (endTrial tr w)"
  using assms
  by (auto simp: onset_inv_def handler_defs Let_def split: world_splits jsnum.splits)

lemma onset_inv_now:
  "onset_inv w \<Longrightarrow> now w \<le> t \<Longrightarrow> onset_inv (w\<lparr>now := t\<rparr>)"
  by (auto simp: onset_inv_def split: jsnum.splits)

lemma onset_inv_field [simp]:
  "onset_inv (w\<lparr>alert_sound := b\<rparr>) = onset_inv w"
  by (simp add: onset_inv_def split: jsnum.splits)

lemma onset_inv_blank:
  assumes "onset_inv w" "recorder_start_time w = Undefined"
  shows "display w = Blank" and "readers w = []" and "QStop \<notin> set (pending w)"
    and "list_all (\<lambda>x. snd (snd x) \<noteq> RecordingTimeout) (timeout_handlers w)"
  using assms by (simp_all add: onset_inv_def)

lemma step_onset_inv:
  assumes "step tr br te w = Some w'" "onset_inv w"
  shows "onset_inv w'"
  using assms
proof (cases rule: step_cases)
  case (AudioLoaded t)
  then show ?thesis using assms(2) by (simp add: onset_inv_now)
next
  case (StartHeard t ts q)
  then show ?thesis by (simp add: onset_inv_start)
next
  case (StartUnheard t ts q)
  then show ?thesis using assms(2) by (auto simp: onset_inv_def split: jsnum.splits)
next
  case (DataHeard t d)
  then show ?thesis using assms(2) by (simp add: onset_inv_now onset_inv_idle)
next
  case (DataUnheard t d)
  then show ?thesis using assms(2) by (simp add: onset_inv_now)
next
  case (StopHeard t q)
  then have s: "recorder_start_time w \<noteq> Undefined"
    using onset_inv_blank(3) [OF assms(2)] by auto
  have "onset_inv (w\<lparr>now := t, pending := q\<rparr>)"
    using assms(2) StopHeard(2) s by (auto simp: onset_inv_def split: jsnum.splits)
  then show ?thesis using StopHeard s by (simp add: onset_inv_started)
next
  case (StopUnheard t q)
  then show ?thesis using assms(2) by (auto simp: onset_inv_def split: jsnum.splits)
next
  case (Load t k d)
  then have s: "recorder_start_time w \<noteq> Undefined"
    using onset_inv_blank(2) [OF assms(2)] by auto
  then show ?thesis using Load assms(2) by (simp add: onset_inv_now onset_inv_started)
next
  case (Layout t k)
  then show ?thesis using assms(2) by (auto simp: onset_inv_def split: jsnum.splits)
next
  case (Timer t h due cb)
  let ?w1 = "w\<lparr>now := t, timeout_handlers := filter (\<lambda>x. fst x \<noteq> h) (timeout_handlers w)\<rparr>"
  have 1: "onset_inv ?w1"
    using assms(2) Timer(2) by (auto simp: onset_inv_def list_all_iff split: jsnum.splits)
  show ?thesis
  proof (cases cb)
    case RecordingTimeout
    have "(h, due, RecordingTimeout) \<in> set (timeout_handlers w)"
      using Timer(3) RecordingTimeout by (auto dest: map_of_SomeD)
    then have "recorder_start_time w \<noteq> Undefined"
      using onset_inv_blank(4) [OF assms(2)] by (fastforce simp: list_all_iff)
    then show ?thesis using Timer RecordingTimeout 1 by (simp add: onset_inv_started)
  qed (use Timer 1 in \<open>simp_all add: onset_inv_idle\<close>)
next
  case (Done t v a)
  then have s: "recorder_start_time w \<noteq> Undefined"
    using onset_inv_blank(1) [OF assms(2)] by auto
  then show ?thesis using Done assms(2) by (simp add: onset_inv_now onset_inv_started)
next
  case (DoneNoListener t v a)
  then show ?thesis using assms(2) by (simp add: onset_inv_now)
next
  case (RecordAgain t u)
  then have s: "recorder_start_time w \<noteq> Undefined"
    using onset_inv_blank(1) [OF assms(2)] by auto
  have "onset_inv (revokeObjectURL (audio_url w) (w\<lparr>now := t\<rparr>))"
    using s RecordAgain(2) assms(2) by (simp add: onset_inv_now onset_inv_started)
  moreover have "recorder_start_time (revokeObjectURL (audio_url w) (w\<lparr>now := t\<rparr>)) \<noteq> Undefined"
    using s by (simp add: revokeObjectURL_def split: option.splits)
  ultimately show ?thesis using RecordAgain by (simp add: onset_inv_started)
next
  case (Continue t u)
  then have s: "recorder_start_time w \<noteq> Undefined"
    using onset_inv_blank(1) [OF assms(2)] by auto
  then show ?thesis using Continue assms(2) by (simp add: onset_inv_now onset_inv_started)
qed

lemma run_onset_inv:
  assumes "exec tr br (trial_method tr br t0) tes = Some w"
  shows "onset_inv w"
proof -
  have "onset_inv (setupRecordingEvents (new_plugin t0))"
    by (simp add: onset_inv_def setupRecordingEvents_def new_plugin_def)
  then have "onset_inv (trial_method tr br t0)"
    by (auto simp: trial_method_def onset_inv_def handler_defs Let_def split: world_splits jsnum.splits)
  with assms show ?thesis by (rule exec_invariant) (rule step_onset_inv)
qed

lemma stimulus_display_kept [simp]:
  "is_stimulus (display (data_available_handler d w)) = is_stimulus (display w)"
  "is_stimulus (display (stop_event_handler w)) = is_stimulus (display w)"
  "is_stimulus (display (run_callback tr br cb w)) = is_stimulus (display w)"
  "is_stimulus (display (done_click w)) = is_stimulus (display w)"
  "is_stimulus (display (startRecording tr br w)) = is_stimulus (display w)"
  "is_stimulus (display (revokeObjectURL u w)) = is_stimulus (display w)"
  "is_stimulus (display (endTrial tr w)) = False"
  by (auto simp: handler_defs run_callback_case Let_def split: world_splits callback.splits)

lemma stimulus_display_load:
  "is_stimulus (display (reader_load tr k d w)) \<Longrightarrow> is_stimulus (display w)"
  by (simp add: reader_load_def after_stop_def showPlaybackControls_def Let_def
      split: option.splits if_splits)

lemma step_shows_stimulus:
  assumes "step tr br te w = Some w'" "is_stimulus (display w')" "\<not> is_stimulus (display w)"
  shows "is_start (snd te)"
  using assms
proof (cases rule: step_cases)
  case (Load t k d)
  then show ?thesis
    using assms(2,3) stimulus_display_load [of tr k d "w\<lparr>now := t\<rparr>"] by simp
qed simp_all

lemma endTrial_onset:
  "\<exists>d. finished (endTrial tr w) = finished w @ [d] \<and>
       data_estimated_stimulus_onset d =
         Math_round (js_sub (stimulus_start_time w) (recorder_start_time w))"
  by (simp add: endTrial_def clearAllTimeouts_def revokeObjectURL_def Let_def
      split: option.splits)

lemma reader_load_onset:
  assumes "finished (reader_load tr k d w) \<noteq> finished w"
  shows "\<exists>dd. finished (reader_load tr k d w) = finished w @ [dd] \<and>
       data_estimated_stimulus_onset dd =
         Math_round (js_sub (stimulus_start_time w) (recorder_start_time w))"
proof -
  let ?w1 = "w\<lparr>readers := filter (\<lambda>x. fst x \<noteq> k) (readers w),
               response := js_index (split_comma (readAsDataURL d)) 1\<rparr>"
  from assms obtain p where "reader_load tr k d w =
      endTrial tr (?w1\<lparr>stop_resolved := insert p (stop_resolved ?w1)\<rparr>)"
    by (auto simp: reader_load_def after_stop_def showPlaybackControls_def Let_def
        split: option.splits if_splits)
  then show ?thesis
    using endTrial_onset [of tr "?w1\<lparr>stop_resolved := insert p (stop_resolved ?w1)\<rparr>"] by simp
qed

lemma round_nonneg:
  assumes "r \<le> s"
  shows "js_nonneg (Math_round (js_sub (Num s) (Num r)))"
    and "Math_round (js_sub (Num s) (Num r)) = Num (of_int \<lfloor>s - r + 1 / 2\<rfloor>)"
proof -
  have "(0::int) \<le> \<lfloor>s - r + 1 / 2\<rfloor>" using assms by simp
  then show "js_nonneg (Math_round (js_sub (Num s) (Num r)))"
    by (simp add: js_defs)
  show "Math_round (js_sub (Num s) (Num r)) = Num (of_int \<lfloor>s - r + 1 / 2\<rfloor>)"
    by (simp add: js_defs)
qed

lemma onset_inv_laid_out:
  assumes "onset_inv w" "recorder_start_time w \<noteq> Undefined" "observers w = []"
  shows "\<exists>s r. stimulus_start_time w = Num s \<and> recorder_start_time w = Num r \<and> r \<le> s"
  using assms by (auto simp: onset_inv_def split: jsnum.splits)

text \<open>
  C10, as the claim states it, fails. The stimulus timestamp is taken in the callback of
  the resize observer, which the page runs on its own time (a page that is not rendered,
  as in a background tab, does not run it at all, while its timers still run, late).
  With the default parameters and no layout reported before the recording timeout ends
  the trial, the timestamp is still \<open>undefined\<close> and \<open>estimated_stimulus_onset\<close>
  is \<open>NaN\<close>, which is not a non-negative number.
\<close>

theorem onset_nan_without_layout:
  "last_result (exec default_trial quiet_room (trial_method default_trial quiet_room 0)
      [(1, StartEvent 1), (5, Timer 1), (1005, Timer 4), (2001, Timer 3),
       (2002, DataAvailable [1, 2, 3]), (2003, StopEvent), (2004, ReaderLoad 8)])
   = Some \<lparr>data_rt = Null, data_stimulus = ''<p>Name the picture</p>'',
            data_response = Some ''AQID'', data_estimated_stimulus_onset = NaN,
            data_audio_url = None\<rparr>
   \<and> \<not> js_nonneg NaN"
  by (simp add: run_defs example_defs)

text \<open>
  C10, amended: a task that puts the stimulus markup on the display is a start event of
  the recorder; and in every run from the start of the trial, when \<open>finishTrial\<close> is
  called in a state in which every resize observation has been reported, both
  timestamps are numbers, the stimulus timestamp is not earlier than the start
  timestamp, and \<open>estimated_stimulus_onset\<close> is their rounded difference, a
  non-negative number.
\<close>

theorem onset_nonneg_after_layout:
  assumes "exec tr br (trial_method tr br t0) tes = Some w"
    and "step tr br te w = Some w'"
    and "finished w' \<noteq> finished w"
    and "observers w = []"
  shows "(step tr br te0 v = Some v' \<and> is_stimulus (display v') \<and>
          \<not> is_stimulus (display v) \<longrightarrow> is_start (snd te0))
       \<and> (\<exists>d s r. finished w' = finished w @ [d] \<and>
           stimulus_start_time w = Num s \<and> recorder_start_time w = Num r \<and> r \<le> s \<and>
           data_estimated_stimulus_onset d = Num (of_int \<lfloor>s - r + 1 / 2\<rfloor>) \<and>
           js_nonneg (data_estimated_stimulus_onset d))"
proof -
  have inv: "onset_inv w" using assms(1) by (rule run_onset_inv)
  from assms(2,3) have started: "recorder_start_time w \<noteq> Undefined"
  proof (cases rule: step_cases)
    case (Load t k d)
    then show ?thesis using onset_inv_blank(2) [OF inv] by auto
  next
    case (Continue t u)
    then show ?thesis using onset_inv_blank(1) [OF inv] by auto
  qed simp_all
  from assms(2,3) have fin: "\<exists>d. finished w' = finished w @ [d] \<and>
       data_estimated_stimulus_onset d =
         Math_round (js_sub (stimulus_start_time w) (recorder_start_time w))"
  proof (cases rule: step_cases)
    case (Load t k d)
    then show ?thesis using assms(3) reader_load_onset [of tr k d "w\<lparr>now := t\<rparr>"] by simp
  next
    case (Continue t u)
    then show ?thesis using endTrial_onset [of tr "w\<lparr>now := t\<rparr>"] by simp
  qed simp_all
  from onset_inv_laid_out [OF inv started assms(4)] obtain s r
    where sr: "stimulus_start_time w = Num s" "recorder_start_time w = Num r" "r \<le> s"
    by blast
  from fin obtain d where d: "finished w' = finished w @ [d]"
    "data_estimated_stimulus_onset d =
       Math_round (js_sub (stimulus_start_time w) (recorder_start_time w))"
    by blast
  have "step tr br te0 v = Some v' \<and> is_stimulus (display v') \<and>
          \<not> is_stimulus (display v) \<longrightarrow> is_start (snd te0)"
    using step_shows_stimulus [of tr br te0 v v'] by blast
  then show ?thesis
    using d sr round_nonneg [OF sr(3)] by auto
qed

text \<open>The default trial with its layout reported at 16 ms: the onset is 15.\<close>

theorem onset_nonneg_after_layout_witness:
  "finished (world_after default_trial quiet_room
      ((1, StartEvent 1) # first_attempt @ [(802, StopEvent), (803, ReaderLoad 6)]))
     = [\<lparr>data_rt = Num 784, data_stimulus = ''<p>Name the picture</p>'',
         data_response = Some ''AQID'', data_estimated_stimulus_onset = Num 15,
         data_audio_url = None\<rparr>]
   \<and> js_nonneg (Num 15)
   \<and> is_start (snd (1 :: real, StartEvent 1))"
proof -
  let ?tr = default_trial and ?br = quiet_room
  let ?w = "world_after ?tr ?br ((1, StartEvent 1) # first_attempt @ [(802, StopEvent)])"
  let ?w' = "world_after ?tr ?br
      ((1, StartEvent 1) # first_attempt @ [(802, StopEvent), (803, ReaderLoad 6)])"
  have e: "exec ?tr ?br (trial_method ?tr ?br 0)
      ((1, StartEvent 1) # first_attempt @ [(802, StopEvent)]) = Some ?w"
    by (simp add: run_defs example_defs)
  have s: "step ?tr ?br (803, ReaderLoad 6) ?w = Some ?w'"
    by (simp add: run_defs example_defs)
  have f: "finished ?w' \<noteq> finished ?w" and o: "observers ?w = []"
    by (simp_all add: run_defs example_defs)
  have v: "finished ?w' = [\<lparr>data_rt = Num 784, data_stimulus = ''<p>Name the picture</p>'',
         data_response = Some ''AQID'', data_estimated_stimulus_onset = Num 15,
         data_audio_url = None\<rparr>]"
    by (simp add: run_defs example_defs)
  have d: "step ?tr ?br (1, StartEvent 1) (trial_method ?tr ?br 0)
      = Some (world_after ?tr ?br [(1, StartEvent 1)])"
    and d1: "is_stimulus (display (world_after ?tr ?br [(1, StartEvent 1)]))"
    and d0: "\<not> is_stimulus (display (trial_method ?tr ?br 0))"
    by (simp_all add: run_defs example_defs)
  from onset_nonneg_after_layout [OF e s f o, of "(1, StartEvent 1)" "trial_method ?tr ?br 0"
      "world_after ?tr ?br [(1, StartEvent 1)]"] v d d1 d0
  show ?thesis by auto
qed

section \<open>The promise of stopRecording\<close>



section \<open>The payload of a session\<close>





section \<open>The trial result and the audio URL\<close>

lemma response_kept [simp]:
  "response (start_event_handler tr ts w) = response w"
  "response (data_available_handler d w) = response w"
  "response (stop_event_handler w) = response w"
  "response (run_callback tr br cb w) = response w"
  "response (done_click w) = response w"
  "response (startRecording tr br w) = response w"
  "response (revokeObjectURL u w) = response w"
  by (auto simp: handler_defs run_callback_case Let_def split: world_splits callback.splits)

lemma step_response:
  assumes "step tr br te w = Some w'"
  shows "response w' =
     (if loaded w (snd te) = [] then response w else Some (base64 (last (loaded w (snd te)))))"
  using assms
  by (cases rule: step_cases) (simp_all add: reader_load_effect)

lemma loads_append:
  "exec tr br w tes = Some w1 \<Longrightarrow>
     loads tr br w (tes @ tes') = loads tr br w tes @ loads tr br w1 tes'"
  by (induction tes arbitrary: w) (auto split: option.splits)

lemma exec_response:
  assumes "exec tr br w tes = Some w'"
  shows "response w' =
     (if loads tr br w tes = [] then response w else Some (base64 (last (loads tr br w tes))))"
  using assms
proof (induction tes arbitrary: w)
  case Nil
  then show ?case by simp
next
  case (Cons te tes)
  then obtain w1 where s: "step tr br te w = Some w1" and e: "exec tr br w1 tes = Some w'"
    by (auto split: option.splits)
  show ?case
    using Cons.IH [OF e] step_response [OF s] s
    by (simp add: last_append)
qed

lemma playback_display_kept [simp]:
  "is_playback (display (data_available_handler d w)) = is_playback (display w)"
  "is_playback (display (stop_event_handler w)) = is_playback (display w)"
  "is_playback (display (run_callback tr br cb w)) = is_playback (display w)"
  "is_playback (display (done_click w)) = is_playback (display w)"
  "is_playback (display (startRecording tr br w)) = is_playback (display w)"
  "is_playback (display (revokeObjectURL u w)) = is_playback (display w)"
  "is_playback (display (endTrial tr w)) = False"
  "is_playback (display (start_event_handler tr ts w)) = False"
  by (auto simp: handler_defs run_callback_case Let_def split: world_splits callback.splits)

lemma step_review_inv:
  assumes "review_inv w" "step tr br te w = Some w'"
  shows "review_inv w'"
  using assms(2,1)
  by (cases rule: step_cases) (simp_all add: review_inv_def reader_load_effect)

lemma run_review_inv:
  assumes "exec tr br (trial_method tr br t0) tes = Some w"
  shows "review_inv w"
  using assms
proof (rule exec_invariant)
  show "review_inv (trial_method tr br t0)"
    by (simp add: review_inv_def trial_method_def setupRecordingEvents_def new_plugin_def)
qed (rule step_review_inv)

lemma endTrial_data:
  "finished (endTrial tr w) =
     finished w @ [\<lparr>data_rt = rt w, data_stimulus = stimulus tr, data_response = response w,
                    data_estimated_stimulus_onset =
                      Math_round (js_sub (stimulus_start_time w) (recorder_start_time w)),
                    data_audio_url = (if save_audio_url tr then audio_url w else None)\<rparr>]"
  "object_urls (endTrial tr w) =
       (if save_audio_url tr then object_urls w
        else filter (\<lambda>x. Some (fst x) \<noteq> audio_url w) (object_urls w))"
  by (auto simp: endTrial_def clearAllTimeouts_def revokeObjectURL_def Let_def split: option.splits)

lemma reader_load_data:
  assumes "finished (reader_load tr k d w) \<noteq> finished w"
  shows "finished (reader_load tr k d w) =
     finished w @ [\<lparr>data_rt = rt w, data_stimulus = stimulus tr,
                    data_response = Some (base64 d),
                    data_estimated_stimulus_onset =
                      Math_round (js_sub (stimulus_start_time w) (recorder_start_time w)),
                    data_audio_url = (if save_audio_url tr then audio_url w else None)\<rparr>]"
    and "object_urls (reader_load tr k d w) =
       (if save_audio_url tr then object_urls w
        else filter (\<lambda>x. Some (fst x) \<noteq> audio_url w) (object_urls w))"
proof -
  let ?w1 = "w\<lparr>readers := filter (\<lambda>x. fst x \<noteq> k) (readers w),
               response := js_index (split_comma (readAsDataURL d)) 1\<rparr>"
  from assms obtain p where r: "reader_load tr k d w =
      endTrial tr (?w1\<lparr>stop_resolved := insert p (stop_resolved ?w1)\<rparr>)"
    by (auto simp: reader_load_def after_stop_def showPlaybackControls_def Let_def
        split: option.splits if_splits)
  show "finished (reader_load tr k d w) =
     finished w @ [\<lparr>data_rt = rt w, data_stimulus = stimulus tr,
                    data_response = Some (base64 d),
                    data_estimated_stimulus_onset =
                      Math_round (js_sub (stimulus_start_time w) (recorder_start_time w)),
                    data_audio_url = (if save_audio_url tr then audio_url w else None)\<rparr>]"
    unfolding r endTrial_data by (simp add: split_readAsDataURL)
  show "object_urls (reader_load tr k d w) =
       (if save_audio_url tr then object_urls w
        else filter (\<lambda>x. Some (fst x) \<noteq> audio_url w) (object_urls w))"
    unfolding r endTrial_data by simp
qed

text \<open>
  C8, as the claim states it, fails: with \<open>save_audio_url\<close> off (the default), a trial
  that records the fragment 1, 2, 3 and is ended with the done button hands
  \<open>finishTrial\<close> a result that embeds the base64 payload and carries no object URL.
\<close>

theorem result_embeds_payload_without_url:
  "last_result (exec default_trial quiet_room (trial_method default_trial quiet_room 0)
      [(1, StartEvent 1), (16, Layout 2), (800, ClickDone), (801, DataAvailable [1, 2, 3]),
       (802, StopEvent), (803, ReaderLoad 6)])
   = Some \<lparr>data_rt = Num 784, data_stimulus = ''<p>Name the picture</p>'',
            data_response = Some ''AQID'', data_estimated_stimulus_onset = Num 15,
            data_audio_url = None\<rparr>"
  by (simp add: run_defs default_trial_def quiet_room_def)

text \<open>
  C8, amended: in every run from the start of the trial, the result that a task hands to
  \<open>finishTrial\<close> embeds the encoded payload whatever \<open>save_audio_url\<close> is: its
  \<open>response\<close> is the base64 encoding of the data of the file reader that loaded
  last, and decodes to that data. The flag decides only the field \<open>audio_url\<close>: with
  the flag on the result also carries the object URL held in \<open>this.audio_url\<close> and
  \<open>endTrial\<close> revokes nothing; with the flag off the result carries no URL and
  \<open>endTrial\<close> revokes that URL.
\<close>

theorem result_always_embeds_payload:
  assumes run: "exec tr br (trial_method tr br t0) tes = Some w"
    and fin: "step tr br te w = Some w'"
    and new: "finished w' \<noteq> finished w"
  shows "\<exists>d blob. finished w' = finished w @ [d] \<and>
           loads tr br (trial_method tr br t0) (tes @ [te]) \<noteq> [] \<and>
           blob = last (loads tr br (trial_method tr br t0) (tes @ [te])) \<and>
           data_response d = Some (base64 blob) \<and>
           base64_decode (base64 blob) = blob \<and>
           data_audio_url d = (if save_audio_url tr then audio_url w else None) \<and>
           object_urls w' =
             (if save_audio_url tr then object_urls w
              else filter (\<lambda>x. Some (fst x) \<noteq> audio_url w) (object_urls w))"
proof -
  let ?w0 = "trial_method tr br t0"
  have run': "exec tr br ?w0 (tes @ [te]) = Some w'"
    using run fin by (simp add: exec_append)
  have none: "response ?w0 = None"
    by (simp add: trial_method_def setupRecordingEvents_def new_plugin_def)
  have r': "response w' =
     (if loads tr br ?w0 (tes @ [te]) = [] then None
      else Some (base64 (last (loads tr br ?w0 (tes @ [te])))))"
    using exec_response [OF run'] none by simp
  have inv: "review_inv w" using run by (rule run_review_inv)
  from fin new have d: "finished w' =
      finished w @ [\<lparr>data_rt = rt w, data_stimulus = stimulus tr, data_response = response w',
                    data_estimated_stimulus_onset =
                      Math_round (js_sub (stimulus_start_time w) (recorder_start_time w)),
                    data_audio_url = (if save_audio_url tr then audio_url w else None)\<rparr>]
      \<and> response w' \<noteq> None
      \<and> object_urls w' =
             (if save_audio_url tr then object_urls w
              else filter (\<lambda>x. Some (fst x) \<noteq> audio_url w) (object_urls w))"
  proof (cases rule: step_cases)
    case (Load t k d)
    then show ?thesis
      using new reader_load_data [of tr k d "w\<lparr>now := t\<rparr>"] by (simp add: reader_load_effect)
  next
    case (Continue t u)
    then show ?thesis
      using inv endTrial_data [of tr "w\<lparr>now := t\<rparr>"] by (simp add: review_inv_def)
  qed simp_all
  with r' show ?thesis
    by (auto simp: base64_decode_base64 split: if_splits)
qed

text \<open>
  With \<open>save_audio_url\<close> on, the trial of the counterexample hands over the payload
  and the URL 5, which stays live.
\<close>

theorem result_always_embeds_payload_witness:
  "finished (world_after url_trial quiet_room
      ((1, StartEvent 1) # first_attempt @ [(802, StopEvent), (803, ReaderLoad 6)]))
     = [\<lparr>data_rt = Num 784, data_stimulus = ''<p>Name the picture</p>'',
         data_response = Some ''AQID'', data_estimated_stimulus_onset = Num 15,
         data_audio_url = Some 5\<rparr>]
   \<and> loads url_trial quiet_room (trial_method url_trial quiet_room 0)
        ((1, StartEvent 1) # first_attempt @ [(802, StopEvent), (803, ReaderLoad 6)])
      = [[1, 2, 3]]
   \<and> base64 [1, 2, 3] = ''AQID''
   \<and> base64_decode ''AQID'' = [1, 2, 3]
   \<and> object_urls (world_after url_trial quiet_room
        ((1, StartEvent 1) # first_attempt @ [(802, StopEvent), (803, ReaderLoad 6)]))
      = [(5, [1, 2, 3])]"
proof -
  let ?tr = url_trial and ?br = quiet_room
  let ?tes = "(1, StartEvent 1) # first_attempt @ [(802, StopEvent)]"
  let ?w = "world_after ?tr ?br ?tes"
  let ?w' = "world_after ?tr ?br
      ((1, StartEvent 1) # first_attempt @ [(802, StopEvent), (803, ReaderLoad 6)])"
  have e: "exec ?tr ?br (trial_method ?tr ?br 0) ?tes = Some ?w"
    by (simp add: run_defs example_defs)
  have s: "step ?tr ?br (803, ReaderLoad 6) ?w = Some ?w'"
    by (simp add: run_defs example_defs)
  have f: "finished ?w' \<noteq> finished ?w"
    by (simp add: run_defs example_defs)
  have l: "loads ?tr ?br (trial_method ?tr ?br 0) (?tes @ [(803, ReaderLoad 6)]) = [[1, 2, 3]]"
    by (simp add: run_defs example_defs)
  have b: "base64 [1, 2, 3] = ''AQID''"
    by (simp add: b64_def b64chars_def)
  have v: "finished ?w = []" "audio_url ?w = Some 5" "object_urls ?w = [(5, [1, 2, 3])]"
    "save_audio_url ?tr" "rt ?w = Num 784"
    by (simp_all add: run_defs example_defs)
  have w: "finished ?w' = [\<lparr>data_rt = Num 784, data_stimulus = ''<p>Name the picture</p>'',
         data_response = Some ''AQID'', data_estimated_stimulus_onset = Num 15,
         data_audio_url = Some 5\<rparr>]"
    by (simp add: run_defs example_defs)
  from result_always_embeds_payload [OF e s f] l b v w
  show ?thesis by auto
qed

text \<open>
  The URL in the result need not be live: ``record again'' revokes it, and ``continue'',
  clicked before the recorder's start event has replaced the playback controls, ends the
  trial with the payload and the URL of the first attempt.
\<close>

lemma revoked_url_in_result:
  "last_result (exec url_review_trial quiet_room (trial_method url_review_trial quiet_room 0)
      ((1, StartEvent 1) # first_attempt @
       [(802, StopEvent), (803, ReaderLoad 6), (3000, ClickRecordAgain), (3001, ClickContinue)]))
   = Some \<lparr>data_rt = Num 784, data_stimulus = ''<p>Name the picture</p>'',
            data_response = Some ''AQID'', data_estimated_stimulus_onset = Num 15,
            data_audio_url = Some 5\<rparr>
   \<and> object_urls (world_after url_review_trial quiet_room
      ((1, StartEvent 1) # first_attempt @
       [(802, StopEvent), (803, ReaderLoad 6), (3000, ClickRecordAgain), (3001, ClickContinue)]))
     = []"
  by (simp add: run_defs example_defs last_result_def)

section \<open>The event time of the two keyboard plugins\<close>

text \<open>
  C9: for the key history \<open>a\<close> at 100 ms and space at 200 ms of a trial that started at
  0 with trigger \<open>a\<close>, the plugin of \<open>src/unnamed/part_000\<close> records the event time
  -200 (start minus now) where the logger plugin records 200 (now minus start): the two
  do not follow one convention, and the first is negative.
\<close>

theorem eventTime_conventions_differ:
  "eventTime (type_keys kb_example kb_keys (kb_new 0)) = Num (- 200) \<and>
   eventTime (type_keys_logger kb_example kb_keys (kb_new 0)) = Num 200"
  by (simp add: kb_example_def kb_keys_def kb_new_def after_response_def
      after_response_logger_def push_response_def Let_def)

end
